theory Spec2Isabelle
  imports Main "HOL-Library.Char_ord" "HOL-Library.List_Lexorder"
begin

section \<open>Python values and library functions used by \<open>csv_processor.py\<close>\<close>

text \<open>
  Strings are lists of characters, compared by code point (\<open>Char_ord\<close>) and then
  lexicographically (\<open>List_Lexorder\<close>), which is Python's ordering of \<open>str\<close>.
  The model covers ASCII text: \<open>str.lower\<close> maps \<open>A\<close>..\<open>Z\<close> to \<open>a\<close>..\<open>z\<close> and
  leaves every other character alone, \<open>str.isspace\<close> holds of the ASCII whitespace
  characters. A value that may be Python's \<open>None\<close> is a \<open>string option\<close>.
\<close>

datatype py_error =
    ValueError string
  | FileNotFoundError string
  | StrptimeError string
  | AttributeError
  | KeyError
  | IndexError

definition quoted :: "string \<Rightarrow> string" where
  "quoted s = CHR 0x27 # s @ [CHR 0x27]"

definition lower_char :: "char \<Rightarrow> char" where
  "lower_char c =
     (if CHR ''A'' \<le> c \<and> c \<le> CHR ''Z'' then char_of (of_char c + (32::nat)) else c)"

definition str_lower :: "string \<Rightarrow> string" where
  "str_lower s = map lower_char s"

definition isspace :: "char \<Rightarrow> bool" where
  "isspace c = (let n = (of_char c :: nat) in (9 \<le> n \<and> n \<le> 13) \<or> (28 \<le> n \<and> n \<le> 32))"

definition str_strip :: "string \<Rightarrow> string" where
  "str_strip s = rev (dropWhile isspace (rev (dropWhile isspace s)))"

definition endswith :: "string \<Rightarrow> string \<Rightarrow> bool" where
  "endswith s suffix =
     (length suffix \<le> length s \<and> drop (length s - length suffix) s = suffix)"

text \<open>\<open>value.replace(" ", "")\<close>: every occurrence of the space character is deleted.\<close>

definition replace_space :: "string \<Rightarrow> string" where
  "replace_space s = filter (\<lambda>c. c \<noteq> CHR '' '') s"

subsection \<open>The file system and \<open>csv.DictReader\<close>\<close>

text \<open>
  A CSV file is the list of records that \<open>csv.reader\<close> yields for it, each record
  a list of cells; a blank line is the record \<open>[]\<close>. The file system maps a path to
  the file stored there, \<open>None\<close> when \<open>open\<close> raises \<open>FileNotFoundError\<close>.

  \<open>DictReader.fieldnames\<close> is the first record (\<open>None\<close> for a file with no record).
  Iterating the reader skips blank records and turns every other record \<open>row\<close> into
  \<open>dict(zip(fieldnames, row))\<close>; a field name that the record is too short for is
  set to \<open>None\<close> (\<open>restval\<close>). The surplus cells of a record that is too long are
  stored under the key \<open>None\<close> (\<open>restkey\<close>); that entry is left out here, since no
  operation reads it: validation rejects the column name \<open>None\<close>.
\<close>

type_synonym csv_records = "string list list"
type_synonym filesystem = "string \<Rightarrow> csv_records option"
type_synonym row_dict = "(string \<times> string option) list"

fun dict_set :: "'k \<Rightarrow> 'v \<Rightarrow> ('k \<times> 'v) list \<Rightarrow> ('k \<times> 'v) list" where
  "dict_set k v [] = [(k, v)]"
| "dict_set k v ((k', v') # rest) =
     (if k = k' then (k', v) # rest else (k', v') # dict_set k v rest)"

definition fieldnames :: "csv_records \<Rightarrow> string list option" where
  "fieldnames recs = (case recs of [] \<Rightarrow> None | header # _ \<Rightarrow> Some header)"

definition make_row :: "string list \<Rightarrow> string list \<Rightarrow> row_dict" where
  "make_row names row =
     fold (\<lambda>key d. dict_set key None d) (drop (length row) names)
       (fold (\<lambda>(key, cell) d. dict_set key (Some cell) d) (zip names row) [])"

definition dict_rows :: "csv_records \<Rightarrow> row_dict list" where
  "dict_rows recs =
     (case recs of [] \<Rightarrow> []
      | header # body \<Rightarrow> map (make_row header) (filter (\<lambda>row. row \<noteq> []) body))"

text \<open>\<open>row.get(key, default)\<close> and \<open>row[key]\<close> for a key that may be \<open>None\<close>.\<close>

definition row_get :: "row_dict \<Rightarrow> string option \<Rightarrow> string option \<Rightarrow> string option" where
  "row_get row key dflt =
     (case key of None \<Rightarrow> dflt
      | Some k \<Rightarrow> (case map_of row k of None \<Rightarrow> dflt | Some v \<Rightarrow> v))"

definition row_item :: "row_dict \<Rightarrow> string option \<Rightarrow> py_error + string option" where
  "row_item row key =
     (case key of None \<Rightarrow> Inl KeyError
      | Some k \<Rightarrow> (case map_of row k of None \<Rightarrow> Inl KeyError | Some v \<Rightarrow> Inr v))"

section \<open>\<open>_validate_csv_and_columns\<close>\<close>

fun check_columns :: "string \<Rightarrow> string list \<Rightarrow> string option list \<Rightarrow> py_error + unit" where
  "check_columns csv_file names [] = Inr ()"
| "check_columns csv_file names (column # rest) =
     (case column of
        None \<Rightarrow> Inl (ValueError ''The target column name cannot be empty or null.'')
      | Some c \<Rightarrow>
          if c = [] \<or> str_strip c = []
          then Inl (ValueError ''The target column name cannot be empty or null.'')
          else if c \<notin> set names
          then Inl (ValueError (''The specified column '' @ quoted c
                                  @ '' does not exist in the CSV file.''))
          else check_columns csv_file names rest)"

definition validate_csv_and_columns ::
  "filesystem \<Rightarrow> string \<Rightarrow> string option list \<Rightarrow> py_error + unit" where
  "validate_csv_and_columns fs csv_file required_columns =
     (if \<not> endswith (str_lower csv_file) ''.csv''
      then Inl (ValueError (''The file '' @ quoted csv_file @ '' is not a valid CSV file.''))
      else case fs csv_file of
        None \<Rightarrow> Inl (FileNotFoundError (''The file '' @ quoted csv_file @ '' does not exist.''))
      | Some recs \<Rightarrow>
          (case fieldnames recs of
             None \<Rightarrow> Inl (ValueError (''The CSV file '' @ quoted csv_file @ '' is empty.''))
           | Some names \<Rightarrow>
               if names = []
               then Inl (ValueError (''The CSV file '' @ quoted csv_file @ '' is empty.''))
               else check_columns csv_file names required_columns))"

section \<open>\<open>extract_unique_values\<close>\<close>

text \<open>
  The loop over the reader, with the set \<open>unique_values\<close> as accumulator. The second
  \<open>open\<close> of the file raises \<open>FileNotFoundError\<close> itself when the file is absent.
\<close>

fun unique_scan :: "string option \<Rightarrow> bool \<Rightarrow> bool \<Rightarrow> row_dict list \<Rightarrow> string set \<Rightarrow> string set" where
  "unique_scan target_column normalize' lowercase [] unique_values = unique_values"
| "unique_scan target_column normalize' lowercase (row # rows) unique_values =
     (case row_get row target_column (Some []) of
        None \<Rightarrow> unique_scan target_column normalize' lowercase rows unique_values
      | Some v \<Rightarrow>
          if v = [] then unique_scan target_column normalize' lowercase rows unique_values
          else (let v1 = (if normalize' then replace_space v else v);
                    v2 = (if lowercase then str_lower v1 else v1)
                in unique_scan target_column normalize' lowercase rows (insert v2 unique_values)))"

definition open_file :: "filesystem \<Rightarrow> string \<Rightarrow> py_error + csv_records" where
  "open_file fs csv_file =
     (case fs csv_file of None \<Rightarrow> Inl (FileNotFoundError csv_file) | Some recs \<Rightarrow> Inr recs)"

definition extract_unique_values ::
  "filesystem \<Rightarrow> string \<Rightarrow> string option \<Rightarrow> bool \<Rightarrow> bool \<Rightarrow> py_error + string list" where
  "extract_unique_values fs csv_file target_column normalize' lowercase =
     (case validate_csv_and_columns fs csv_file [target_column] of
        Inl e \<Rightarrow> Inl e
      | Inr _ \<Rightarrow>
          (case open_file fs csv_file of
             Inl e \<Rightarrow> Inl e
           | Inr recs \<Rightarrow>
               Inr (sorted_list_of_set
                      (unique_scan target_column normalize' lowercase (dict_rows recs) {}))))"

section \<open>\<open>count_by_columns\<close>\<close>

text \<open>
  One component of the key tuple. The conditional expression of the source parses as
  \<open>A if lowercase else (B if normalize else C)\<close>; a method call on \<open>None\<close>
  raises \<open>AttributeError\<close>.
\<close>

definition key_value :: "bool \<Rightarrow> bool \<Rightarrow> row_dict \<Rightarrow> string option \<Rightarrow> py_error + string option" where
  "key_value normalize' lowercase row column =
     (if lowercase
      then (case row_item row column of
              Inl e \<Rightarrow> Inl e
            | Inr None \<Rightarrow> Inl AttributeError
            | Inr (Some v) \<Rightarrow> Inr (Some (str_lower (replace_space v))))
      else if normalize'
      then (case row_item row column of
              Inl e \<Rightarrow> Inl e
            | Inr None \<Rightarrow> Inl AttributeError
            | Inr (Some v) \<Rightarrow> Inr (Some (replace_space v)))
      else row_item row column)"

fun make_key :: "bool \<Rightarrow> bool \<Rightarrow> row_dict \<Rightarrow> string option list \<Rightarrow> py_error + string option list" where
  "make_key normalize' lowercase row [] = Inr []"
| "make_key normalize' lowercase row (column # columns) =
     (case key_value normalize' lowercase row column of
        Inl e \<Rightarrow> Inl e
      | Inr v \<Rightarrow>
          (case make_key normalize' lowercase row columns of
             Inl e \<Rightarrow> Inl e
           | Inr vs \<Rightarrow> Inr (v # vs)))"

text \<open>
  A \<open>Counter\<close> (and the \<open>dict\<close> returned) is the list of its items in insertion
  order. \<open>count_data[key] += 1\<close> adds one to the count of a key that is present and
  appends a new key with count 1.
\<close>

fun counter_incr :: "'k \<Rightarrow> ('k \<times> int) list \<Rightarrow> ('k \<times> int) list" where
  "counter_incr key [] = [(key, 1)]"
| "counter_incr key ((k, c) # rest) =
     (if key = k then (k, c + 1) # rest else (k, c) # counter_incr key rest)"

fun count_scan ::
  "bool \<Rightarrow> bool \<Rightarrow> string option list \<Rightarrow> row_dict list \<Rightarrow> (string option list \<times> int) list
     \<Rightarrow> py_error + (string option list \<times> int) list" where
  "count_scan normalize' lowercase group_by_columns [] count_data = Inr count_data"
| "count_scan normalize' lowercase group_by_columns (row # rows) count_data =
     (case make_key normalize' lowercase row group_by_columns of
        Inl e \<Rightarrow> Inl e
      | Inr key \<Rightarrow>
          count_scan normalize' lowercase group_by_columns rows (counter_incr key count_data))"

text \<open>
  \<open>sorted(items, key=lambda item: item[1], reverse=True)\<close>: Python's sort is stable
  also with \<open>reverse=True\<close>, so the items come out by descending count and items of
  equal count keep their order. \<open>sort_key\<close> is a stable insertion sort.
\<close>

definition sorted_by_count_desc :: "('k \<times> int) list \<Rightarrow> ('k \<times> int) list" where
  "sorted_by_count_desc items = sort_key (\<lambda>item. - snd item) items"

definition count_by_columns ::
  "filesystem \<Rightarrow> string \<Rightarrow> string option list \<Rightarrow> bool \<Rightarrow> bool
     \<Rightarrow> py_error + (string option list \<times> int) list" where
  "count_by_columns fs csv_file group_by_columns normalize' lowercase =
     (case validate_csv_and_columns fs csv_file group_by_columns of
        Inl e \<Rightarrow> Inl e
      | Inr _ \<Rightarrow>
          (case open_file fs csv_file of
             Inl e \<Rightarrow> Inl e
           | Inr recs \<Rightarrow>
               (case count_scan normalize' lowercase group_by_columns (dict_rows recs) [] of
                  Inl e \<Rightarrow> Inl e
                | Inr count_data \<Rightarrow> Inr (sorted_by_count_desc count_data))))"

section \<open>\<open>top_n_values\<close>\<close>

text \<open>\<open>{k[0]: v for k, v in count_data.items()}\<close>\<close>

fun first_components ::
  "('a list \<times> int) list \<Rightarrow> ('a \<times> int) list \<Rightarrow> py_error + ('a \<times> int) list" where
  "first_components [] d = Inr d"
| "first_components (([], v) # rest) d = Inl IndexError"
| "first_components ((x # xs, v) # rest) d = first_components rest (dict_set x v d)"

text \<open>
  \<open>Counter.most_common(n)\<close> is \<open>heapq.nlargest(n, items, key=count)\<close>, which returns
  the first \<open>n\<close> items of the stable descending sort, and nothing for \<open>n \<le> 0\<close>.
\<close>

definition most_common :: "int \<Rightarrow> ('k \<times> int) list \<Rightarrow> ('k \<times> int) list" where
  "most_common n items = (if n \<le> 0 then [] else take (nat n) (sorted_by_count_desc items))"

definition top_n_values ::
  "filesystem \<Rightarrow> string \<Rightarrow> string option \<Rightarrow> int \<Rightarrow> bool \<Rightarrow> bool
     \<Rightarrow> py_error + (string option \<times> int) list" where
  "top_n_values fs csv_file target_column n normalize' lowercase =
     (case validate_csv_and_columns fs csv_file [target_column] of
        Inl e \<Rightarrow> Inl e
      | Inr _ \<Rightarrow>
          (case count_by_columns fs csv_file [target_column] normalize' lowercase of
             Inl e \<Rightarrow> Inl e
           | Inr count_data \<Rightarrow>
               (case first_components count_data [] of
                  Inl e \<Rightarrow> Inl e
                | Inr value_counter \<Rightarrow> Inr (most_common n value_counter))))"

section \<open>\<open>datetime.strptime\<close> for the two formats used\<close>

text \<open>
  \<open>strptime\<close> turns the format into a regular expression (\<open>%m\<close> is
  \<open>1[0-2]|0[1-9]|[1-9]\<close>, \<open>%d\<close> is \<open>3[0-1]|[1-2]\d|0[1-9]|[1-9]| [1-9]\<close>, \<open>%Y\<close> is
  \<open>\d\d\d\d\<close>, \<open>%H\<close> is \<open>2[0-3]|[0-1]\d|\d\<close>, \<open>%M\<close> is \<open>[0-5]\d|\d\<close>, a blank of
  the format is \<open>\s+\<close>), takes the first match of it at the start of the string in
  backtracking order, fails when the match leaves characters over, and then builds the
  date, which fails for the year 0 and for a day the month does not have. A matcher
  returns the list of its matches, best first, each with the rest of the string.
\<close>

record datetime =
  year :: nat
  month :: nat
  day :: nat
  hour :: nat
  minute :: nat

definition dt_key :: "datetime \<Rightarrow> nat list" where
  "dt_key d = [year d, month d, day d, hour d, minute d]"

definition datetime_le :: "datetime \<Rightarrow> datetime \<Rightarrow> bool" where
  "datetime_le a b = (dt_key a \<le> dt_key b)"

definition digit_of :: "char \<Rightarrow> nat option" where
  "digit_of c =
     (if CHR ''0'' \<le> c \<and> c \<le> CHR ''9'' then Some (of_char c - 48) else None)"

fun one_digit :: "(nat \<Rightarrow> bool) \<Rightarrow> string \<Rightarrow> (nat \<times> string) list" where
  "one_digit P [] = []"
| "one_digit P (c # s) =
     (case digit_of c of None \<Rightarrow> [] | Some a \<Rightarrow> if P a then [(a, s)] else [])"

definition then_match ::
  "(string \<Rightarrow> ('a \<times> string) list) \<Rightarrow> ('a \<Rightarrow> string \<Rightarrow> ('b \<times> string) list)
     \<Rightarrow> string \<Rightarrow> ('b \<times> string) list" where
  "then_match p f s = concat (map (\<lambda>(a, r). f a r) (p s))"

definition two_digits :: "(nat \<Rightarrow> bool) \<Rightarrow> (nat \<Rightarrow> bool) \<Rightarrow> string \<Rightarrow> (nat \<times> string) list" where
  "two_digits P Q =
     then_match (one_digit P) (\<lambda>a. then_match (one_digit Q) (\<lambda>b r. [(10 * a + b, r)]))"

definition lit :: "char \<Rightarrow> string \<Rightarrow> (unit \<times> string) list" where
  "lit c s = (case s of [] \<Rightarrow> [] | x # r \<Rightarrow> if x = c then [((), r)] else [])"

definition spaces :: "string \<Rightarrow> (unit \<times> string) list" where
  "spaces s = map (\<lambda>k. ((), drop k s)) (rev [1..<Suc (length (takeWhile isspace s))])"

definition re_m :: "string \<Rightarrow> (nat \<times> string) list" where
  "re_m s = two_digits (\<lambda>a. a = 1) (\<lambda>b. b \<le> 2) s
          @ two_digits (\<lambda>a. a = 0) (\<lambda>b. 1 \<le> b) s
          @ one_digit (\<lambda>a. 1 \<le> a) s"

definition re_d :: "string \<Rightarrow> (nat \<times> string) list" where
  "re_d s = two_digits (\<lambda>a. a = 3) (\<lambda>b. b \<le> 1) s
          @ two_digits (\<lambda>a. 1 \<le> a \<and> a \<le> 2) (\<lambda>b. True) s
          @ two_digits (\<lambda>a. a = 0) (\<lambda>b. 1 \<le> b) s
          @ one_digit (\<lambda>a. 1 \<le> a) s
          @ then_match (lit CHR '' '') (\<lambda>_. one_digit (\<lambda>a. 1 \<le> a)) s"

definition re_Y :: "string \<Rightarrow> (nat \<times> string) list" where
  "re_Y =
     then_match (two_digits (\<lambda>a. True) (\<lambda>b. True))
       (\<lambda>hi. then_match (two_digits (\<lambda>a. True) (\<lambda>b. True)) (\<lambda>lo r. [(100 * hi + lo, r)]))"

definition re_H :: "string \<Rightarrow> (nat \<times> string) list" where
  "re_H s = two_digits (\<lambda>a. a = 2) (\<lambda>b. b \<le> 3) s
          @ two_digits (\<lambda>a. a \<le> 1) (\<lambda>b. True) s
          @ one_digit (\<lambda>a. True) s"

definition re_M :: "string \<Rightarrow> (nat \<times> string) list" where
  "re_M s = two_digits (\<lambda>a. a \<le> 5) (\<lambda>b. True) s @ one_digit (\<lambda>a. True) s"

definition match_date :: "string \<Rightarrow> ((nat \<times> nat \<times> nat) \<times> string) list" where
  "match_date =
     then_match re_m (\<lambda>m. then_match (lit CHR ''/'') (\<lambda>_.
     then_match re_d (\<lambda>d. then_match (lit CHR ''/'') (\<lambda>_.
     then_match re_Y (\<lambda>y r. [((y, m, d), r)])))))"

definition match_time :: "string \<Rightarrow> ((nat \<times> nat) \<times> string) list" where
  "match_time =
     then_match spaces (\<lambda>_. then_match re_H (\<lambda>h. then_match (lit CHR '':'') (\<lambda>_.
     then_match re_M (\<lambda>mi r. [((h, mi), r)]))))"

definition is_leap :: "nat \<Rightarrow> bool" where
  "is_leap y = (y mod 4 = 0 \<and> (y mod 100 \<noteq> 0 \<or> y mod 400 = 0))"

definition days_in_month :: "nat \<Rightarrow> nat \<Rightarrow> nat" where
  "days_in_month y m =
     (if m = 2 then (if is_leap y then 29 else 28)
      else if m = 4 \<or> m = 6 \<or> m = 9 \<or> m = 11 then 30 else 31)"

definition valid_date :: "nat \<Rightarrow> nat \<Rightarrow> nat \<Rightarrow> bool" where
  "valid_date y m d = (1 \<le> y \<and> 1 \<le> m \<and> m \<le> 12 \<and> 1 \<le> d \<and> d \<le> days_in_month y m)"

text \<open>\<open>datetime.strptime(s, "%m/%d/%Y")\<close>\<close>

definition strptime_date :: "string \<Rightarrow> py_error + datetime" where
  "strptime_date s =
     (case match_date s of
        [] \<Rightarrow> Inl (StrptimeError s)
      | ((y, m, d), rest) # _ \<Rightarrow>
          if rest \<noteq> [] \<or> \<not> valid_date y m d then Inl (StrptimeError s)
          else Inr \<lparr>year = y, month = m, day = d, hour = 0, minute = 0\<rparr>)"

text \<open>\<open>datetime.strptime(s, "%m/%d/%Y %H:%M")\<close>\<close>

definition strptime_datetime :: "string \<Rightarrow> py_error + datetime" where
  "strptime_datetime s =
     (case then_match match_date (\<lambda>ymd. then_match match_time (\<lambda>hm r. [((ymd, hm), r)])) s of
        [] \<Rightarrow> Inl (StrptimeError s)
      | (((y, m, d), (h, mi)), rest) # _ \<Rightarrow>
          if rest \<noteq> [] \<or> \<not> valid_date y m d then Inl (StrptimeError s)
          else Inr \<lparr>year = y, month = m, day = d, hour = h, minute = mi\<rparr>)"

section \<open>\<open>values_in_date_range\<close>\<close>

definition py_str :: "string option \<Rightarrow> string" where
  "py_str v = (case v of None \<Rightarrow> ''None'' | Some s \<Rightarrow> s)"

text \<open>\<open>{col: row[col] for col in target_columns}\<close>\<close>

fun project ::
  "row_dict \<Rightarrow> string option list \<Rightarrow> (string option \<times> string option) list
     \<Rightarrow> py_error + (string option \<times> string option) list" where
  "project row [] d = Inr d"
| "project row (col # cols) d =
     (case row_item row col of
        Inl e \<Rightarrow> Inl e
      | Inr v \<Rightarrow> project row cols (dict_set col v d))"

fun date_scan ::
  "string option \<Rightarrow> datetime \<Rightarrow> datetime \<Rightarrow> string option list \<Rightarrow> row_dict list
     \<Rightarrow> (string option \<times> string option) list list
     \<Rightarrow> py_error + (string option \<times> string option) list list" where
  "date_scan date_column start end_dt target_columns [] results_in_range = Inr results_in_range"
| "date_scan date_column start end_dt target_columns (row # rows) results_in_range =
     (case row_item row date_column of
        Inl e \<Rightarrow> Inl e
      | Inr None \<Rightarrow> date_scan date_column start end_dt target_columns rows results_in_range
      | Inr (Some date_value) \<Rightarrow>
          if date_value = []
          then date_scan date_column start end_dt target_columns rows results_in_range
          else
            (case strptime_datetime date_value of
               Inl _ \<Rightarrow>
                 Inl (ValueError (''Invalid date format in column '' @ quoted (py_str date_column)
                                    @ '': '' @ date_value))
             | Inr date_obj \<Rightarrow>
                 if datetime_le start date_obj \<and> datetime_le date_obj end_dt
                 then (case project row target_columns [] of
                         Inl e \<Rightarrow> Inl e
                       | Inr result \<Rightarrow>
                           date_scan date_column start end_dt target_columns rows
                             (results_in_range @ [dict_set date_column (Some date_value) result]))
                 else date_scan date_column start end_dt target_columns rows results_in_range))"

definition values_in_date_range ::
  "filesystem \<Rightarrow> string \<Rightarrow> string option \<Rightarrow> string \<Rightarrow> string \<Rightarrow> string option list
     \<Rightarrow> py_error + (string option \<times> string option) list list" where
  "values_in_date_range fs csv_file date_column start_date end_date target_columns =
     (case validate_csv_and_columns fs csv_file (date_column # target_columns) of
        Inl e \<Rightarrow> Inl e
      | Inr _ \<Rightarrow>
          (case open_file fs csv_file of
             Inl e \<Rightarrow> Inl e
           | Inr recs \<Rightarrow>
               (case strptime_date start_date of
                  Inl e \<Rightarrow> Inl e
                | Inr start \<Rightarrow>
                    (case strptime_date end_date of
                       Inl e \<Rightarrow> Inl e
                     | Inr end_dt \<Rightarrow>
                         date_scan date_column start end_dt target_columns (dict_rows recs) []))))"

section \<open>\<open>extract_unique_values_pandas\<close>\<close>

text \<open>
  \<open>df[target_column]\<close> for a column of text: the cell of every data row, an empty or
  missing cell being \<open>NaN\<close> (here \<open>None\<close>). What \<open>pandas.read_csv\<close> infers for
  numbers, booleans and markers such as \<open>NA\<close> is not modelled; the model is for cells
  that hold plain text. \<open>dropna\<close> removes the \<open>NaN\<close> entries, \<open>str.strip\<close> removes
  leading and trailing whitespace, \<open>unique\<close> removes duplicates.
\<close>

definition pd_column :: "csv_records \<Rightarrow> string option \<Rightarrow> string option list" where
  "pd_column recs column =
     map (\<lambda>row. case row_get row column None of
                    None \<Rightarrow> None
                  | Some v \<Rightarrow> if v = [] then None else Some v)
       (dict_rows recs)"

definition dropna :: "'a option list \<Rightarrow> 'a list" where
  "dropna xs = concat (map (\<lambda>x. case x of None \<Rightarrow> [] | Some v \<Rightarrow> [v]) xs)"

definition extract_unique_values_pandas ::
  "filesystem \<Rightarrow> string \<Rightarrow> string option \<Rightarrow> bool \<Rightarrow> bool \<Rightarrow> py_error + string list" where
  "extract_unique_values_pandas fs csv_file target_column normalize' lowercase =
     (case validate_csv_and_columns fs csv_file [target_column] of
        Inl e \<Rightarrow> Inl e
      | Inr _ \<Rightarrow>
          (case open_file fs csv_file of
             Inl e \<Rightarrow> Inl e
           | Inr recs \<Rightarrow>
               (let unique_values = map str_strip (dropna (pd_column recs target_column));
                    unique_values1 =
                      (if normalize' then map replace_space unique_values else unique_values);
                    unique_values2 =
                      (if lowercase then map str_lower unique_values1 else unique_values1)
                in Inr (sort (remdups unique_values2)))))"

section \<open>Vocabulary of the properties\<close>

text \<open>
  What the two flags do to one value in \<open>extract_unique_values\<close>, and the set of
  cell values of a column that the scan does not skip.
\<close>

definition apply_flags :: "bool \<Rightarrow> bool \<Rightarrow> string \<Rightarrow> string" where
  "apply_flags normalize' lowercase v =
     (let v1 = (if normalize' then replace_space v else v)
      in if lowercase then str_lower v1 else v1)"

definition raw_values :: "string option \<Rightarrow> row_dict list \<Rightarrow> string set" where
  "raw_values col rows =
     {v. v \<noteq> [] \<and> (\<exists>row \<in> set rows. row_get row col (Some []) = Some v)}"

text \<open>
  The position at which a value is first met in a scan, and how a column name fails
  the checks of the validator: it is blank, or it is not in the header.
\<close>

definition first_index :: "'a list \<Rightarrow> 'a \<Rightarrow> nat" where
  "first_index xs x = length (takeWhile (\<lambda>y. y \<noteq> x) xs)"

definition blank_name :: "string option \<Rightarrow> bool" where
  "blank_name column =
     (case column of None \<Rightarrow> True | Some c \<Rightarrow> c = [] \<or> str_strip c = [])"

definition absent_name :: "string list \<Rightarrow> string option \<Rightarrow> bool" where
  "absent_name names column =
     (case column of None \<Rightarrow> True | Some c \<Rightarrow> c \<notin> set names)"

definition column_error :: "string option \<Rightarrow> py_error" where
  "column_error column =
     (if blank_name column
      then ValueError ''The target column name cannot be empty or null.''
      else ValueError (''The specified column '' @ quoted (py_str column)
                         @ '' does not exist in the CSV file.''))"

text \<open>The date value of a row is empty: the cell is missing or holds the empty string.\<close>

definition empty_date :: "row_dict \<Rightarrow> string option \<Rightarrow> bool" where
  "empty_date row date_column =
     (row_item row date_column = Inr None \<or> row_item row date_column = Inr (Some []))"

text \<open>The date value of a row is not empty and \<open>strptime\<close> rejects it.\<close>

definition malformed_date :: "row_dict \<Rightarrow> string option \<Rightarrow> string \<Rightarrow> bool" where
  "malformed_date row date_column v =
     (row_item row date_column = Inr (Some v) \<and> v \<noteq> [] \<and> isl (strptime_datetime v))"

definition well_dated :: "row_dict \<Rightarrow> string option \<Rightarrow> bool" where
  "well_dated row date_column =
     (empty_date row date_column \<or>
      (\<exists>v. row_item row date_column = Inr (Some v) \<and> \<not> isl (strptime_datetime v)))"

definition invalid_date_error :: "string option \<Rightarrow> string \<Rightarrow> py_error" where
  "invalid_date_error date_column v =
     ValueError (''Invalid date format in column '' @ quoted (py_str date_column)
                   @ '': '' @ v)"

text \<open>What the two flags do to one cell in \<open>count_by_columns\<close>.\<close>

definition key_flags :: "bool \<Rightarrow> bool \<Rightarrow> string \<Rightarrow> string" where
  "key_flags normalize' lowercase v =
     (if lowercase then str_lower (replace_space v)
      else if normalize' then replace_space v else v)"

section \<open>Example sources\<close>

definition fs_blank :: filesystem where
  "fs_blank =
     (\<lambda>p. if p = ''dogs.csv'' then Some [[''Breed'', ''DogName''], ['' '', ''REX'']] else None)"


definition fs_breeds :: filesystem where
  "fs_breeds =
     (\<lambda>p. if p = ''dogs.csv''
          then Some [[''Breed'', ''LicenseType''],
                     [''Bichon Frise'', ''Dog Individual Male''],
                     [''DACHSHUND'', []],
                     [],
                     [''BICHON FRISE'', ''Dog Individual Male''],
                     [''DACHSHUND'', []],
                     [''SCHNOODLE'', ''Dog Senior Citizen'']]
          else None)"

definition fs_ragged :: filesystem where
  "fs_ragged =
     (\<lambda>p. if p = ''dogs.csv''
          then Some [[''Breed'', ''LicenseType''], [''DACHSHUND'']]
          else None)"

definition fs_strip :: filesystem where
  "fs_strip =
     (\<lambda>p. if p = ''dogs.csv'' then Some [[''Breed''], ['' CHIHUAHUA'']] else None)"

definition fs_dates :: filesystem where
  "fs_dates =
     (\<lambda>p. if p = ''dogs.csv''
          then Some [[''DogName'', ''ValidDate''],
                     [''RILEY'', ''1/4/2017 8:39''],
                     [''REX'', []],
                     [''BELLA'', ''12/31/2016 23:59''],
                     [''LUNA'', ''2/4/2017 0:00''],
                     [''MAX'', ''2/4/2017 8:39'']]
          else None)"

definition fs_bad_date :: filesystem where
  "fs_bad_date =
     (\<lambda>p. if p = ''dogs.csv''
          then Some [[''DogName'', ''ValidDate''],
                     [''RILEY'', ''1/4/2017 8:39''],
                     [''REX'', ''2017-01-04'']]
          else None)"

section \<open>Validated columns and the rows of the reader\<close>

lemma check_columns_find:
  "check_columns csv_file names cols =
     (case find (\<lambda>c. blank_name c \<or> absent_name names c) cols of
        None \<Rightarrow> Inr ()
      | Some c \<Rightarrow> Inl (column_error c))"
  by (induction cols)
     (auto simp: blank_name_def absent_name_def column_error_def py_str_def split: option.splits)

lemma check_columns_ok:
  "check_columns csv_file names cols = Inr () \<Longrightarrow>
     \<forall>c \<in> set cols. \<exists>n. c = Some n \<and> n \<in> set names"
  by (induction cols) (auto split: option.splits if_splits)

lemma validate_ok:
  assumes "validate_csv_and_columns fs csv_file cols = Inr u"
  shows "\<exists>header body. fs csv_file = Some (header # body) \<and> header \<noteq> []
           \<and> (\<forall>c \<in> set cols. \<exists>n. c = Some n \<and> n \<in> set header)"
proof -
  from assms obtain recs where recs: "fs csv_file = Some recs"
    by (cases "fs csv_file") (auto simp: validate_csv_and_columns_def split: if_splits)
  with assms obtain header body where hb: "recs = header # body"
    by (cases recs) (auto simp: validate_csv_and_columns_def fieldnames_def split: if_splits)
  with assms recs have ne: "header \<noteq> []" and cc: "check_columns csv_file header cols = Inr ()"
    by (auto simp: validate_csv_and_columns_def fieldnames_def split: if_splits)
  from cc have "\<forall>c \<in> set cols. \<exists>n. c = Some n \<and> n \<in> set header"
    by (rule check_columns_ok)
  with recs hb ne show ?thesis by blast
qed

lemma map_of_dict_set: "map_of (dict_set k v d) = (map_of d)(k \<mapsto> v)"
  by (induction d) (auto simp: fun_eq_iff)

lemma dom_fold_dict_set_None:
  "dom (map_of (fold (\<lambda>key d. dict_set key None d) ks d)) = set ks \<union> dom (map_of d)"
  by (induction ks arbitrary: d) (auto simp: map_of_dict_set)

lemma dom_fold_dict_set_zip:
  "dom (map_of (fold (\<lambda>(key, cell) d. dict_set key (Some cell) d) kvs d))
     = fst ` set kvs \<union> dom (map_of d)"
  by (induction kvs arbitrary: d) (auto simp: map_of_dict_set)

lemma fst_set_zip: "fst ` set (zip xs ys) = set (take (length ys) xs)"
proof -
  have "map fst (zip xs ys) = take (length ys) xs"
    by (simp add: map_fst_zip_take min_def)
  then show ?thesis by (metis set_map)
qed

lemma dom_make_row: "dom (map_of (make_row names row)) = set names"
proof -
  have "dom (map_of (make_row names row))
          = set (drop (length row) names) \<union> set (take (length row) names)"
    by (simp add: make_row_def dom_fold_dict_set_None dom_fold_dict_set_zip fst_set_zip)
  also have "\<dots> = set (take (length row) names @ drop (length row) names)"
    by (simp only: set_append Un_commute)
  finally show ?thesis by simp
qed

lemma row_item_present:
  assumes "row \<in> set (dict_rows (header # body))" and "n \<in> set header"
  shows "\<exists>v. row_item row (Some n) = Inr v"
proof -
  from assms(1) obtain r where "row = make_row header r" by (auto simp: dict_rows_def)
  with assms(2) have "n \<in> dom (map_of row)" by (simp add: dom_make_row)
  then show ?thesis by (auto simp: row_item_def)
qed

section \<open>Properties of \<open>extract_unique_values\<close>\<close>

lemma unique_scan_Cons:
  "unique_scan col nz lc (row # rows) acc =
     (case row_get row col (Some []) of
        None \<Rightarrow> unique_scan col nz lc rows acc
      | Some v \<Rightarrow> if v = [] then unique_scan col nz lc rows acc
                  else unique_scan col nz lc rows (insert (apply_flags nz lc v) acc))"
  by (simp add: apply_flags_def Let_def split: option.splits)

lemma unique_scan_eq:
  "unique_scan col nz lc rows acc = acc \<union> apply_flags nz lc ` raw_values col rows"
proof (induction rows arbitrary: acc)
  case Nil
  show ?case by (simp add: raw_values_def)
next
  case (Cons row rows)
  have raw: "raw_values col (row # rows) =
      (case row_get row col (Some []) of None \<Rightarrow> {} | Some v \<Rightarrow> if v = [] then {} else {v})
        \<union> raw_values col rows"
    by (auto simp: raw_values_def split: option.splits)
  show ?case
    by (simp add: unique_scan_Cons Cons.IH raw del: unique_scan.simps split: option.splits)
qed

lemma finite_unique_scan: "finite acc \<Longrightarrow> finite (unique_scan col nz lc rows acc)"
  by (induction rows arbitrary: acc) (auto simp: Let_def split: option.splits)

lemma str_lower_Nil_iff: "str_lower v = [] \<longleftrightarrow> v = []"
  by (simp add: str_lower_def)

lemma apply_flags_Nil_iff:
  "apply_flags nz lc v = [] \<longleftrightarrow> (if nz then set v \<subseteq> {CHR '' ''} else v = [])"
  by (auto simp: apply_flags_def Let_def str_lower_Nil_iff replace_space_def filter_empty_conv)

text \<open>
  C7, as the code has it. For a source and a column that pass validation, the list
  returned by \<open>extract_unique_values\<close> is strictly ascending in the ordinal order of
  strings and has no duplicates. Its elements are exactly the values of the column's
  cells that are neither missing nor empty, after the flags are applied: a missing or
  empty cell is skipped before normalization. The empty string is in the list exactly
  when \<open>normalize\<close> is set and some cell of the column is not empty but consists of
  space characters only.
\<close>

theorem extract_unique_values_strictly_ascending:
  assumes "validate_csv_and_columns fs csv_file [col] = Inr ()" and "fs csv_file = Some recs"
  shows "\<exists>vs. extract_unique_values fs csv_file col nz lc = Inr vs
           \<and> sorted_wrt (<) vs \<and> distinct vs
           \<and> set vs = apply_flags nz lc ` raw_values col (dict_rows recs)
           \<and> ([] \<in> set vs \<longleftrightarrow>
                nz \<and> (\<exists>v \<in> raw_values col (dict_rows recs). set v \<subseteq> {CHR '' ''}))"
proof -
  let ?S = "unique_scan col nz lc (dict_rows recs) {}"
  have fin: "finite ?S" by (rule finite_unique_scan) simp
  have S: "?S = apply_flags nz lc ` raw_values col (dict_rows recs)"
    by (simp add: unique_scan_eq)
  have res: "extract_unique_values fs csv_file col nz lc = Inr (sorted_list_of_set ?S)"
    using assms by (simp add: extract_unique_values_def open_file_def)
  have mem: "[] \<in> ?S \<longleftrightarrow> nz \<and> (\<exists>v \<in> raw_values col (dict_rows recs). set v \<subseteq> {CHR '' ''})"
  proof -
    have "[] \<in> ?S \<longleftrightarrow> (\<exists>v \<in> raw_values col (dict_rows recs). apply_flags nz lc v = [])"
      unfolding S by (metis (no_types) imageE image_eqI)
    also have "\<dots> \<longleftrightarrow> nz \<and> (\<exists>v \<in> raw_values col (dict_rows recs). set v \<subseteq> {CHR '' ''})"
      by (auto simp: apply_flags_Nil_iff raw_values_def)
    finally show ?thesis .
  qed
  show ?thesis
    using fin S mem res by (auto simp del: unique_scan.simps)
qed

theorem extract_unique_values_strictly_ascending_witness:
  "validate_csv_and_columns fs_blank ''dogs.csv'' [Some ''Breed''] = Inr () \<and>
   (\<exists>vs. extract_unique_values fs_blank ''dogs.csv'' (Some ''Breed'') True False = Inr vs
           \<and> sorted_wrt (<) vs \<and> distinct vs \<and> [] \<in> set vs)"
proof -
  have v: "validate_csv_and_columns fs_blank ''dogs.csv'' [Some ''Breed''] = Inr ()"
    by code_simp
  have f: "fs_blank ''dogs.csv'' = Some [[''Breed'', ''DogName''], ['' '', ''REX'']]"
    by code_simp
  have e: "extract_unique_values fs_blank ''dogs.csv'' (Some ''Breed'') True False = Inr [[]]"
    by code_simp
  from extract_unique_values_strictly_ascending [OF v f, of True False] v e
  show ?thesis by auto
qed

text \<open>
  C7 as stated fails: a cell that holds one space is not empty, so it is not skipped,
  and with \<open>normalize\<close> set it contributes the empty string.
\<close>

theorem extract_unique_values_empty_string_counterexample:
  "extract_unique_values fs_blank ''dogs.csv'' (Some ''Breed'') True False = Inr [[]]"
  by code_simp

section \<open>The frequency table\<close>

lemma sum_counter_incr: "sum_list (map snd (counter_incr k m)) = sum_list (map snd m) + 1"
  by (induction m) auto

lemma sum_insort_key:
  "sum_list (map g (insort_key f x xs)) = (g x :: int) + sum_list (map g xs)"
  by (induction xs) auto

lemma sum_sort_key: "sum_list (map g (sort_key f xs)) = (sum_list (map g xs) :: int)"
  by (induction xs) (auto simp: sum_insort_key)

lemma sum_sorted_by_count_desc:
  "sum_list (map snd (sorted_by_count_desc items)) = sum_list (map snd items)"
  by (simp add: sorted_by_count_desc_def sum_sort_key)

lemma count_scan_sum:
  "count_scan nz lc cols rows acc = Inr res \<Longrightarrow>
     sum_list (map snd res) = sum_list (map snd acc) + int (length rows)"
proof (induction rows arbitrary: acc)
  case Nil
  then show ?case by simp
next
  case (Cons row rows)
  from Cons.prems obtain key where
    key: "make_key nz lc row cols = Inr key" and
    rest: "count_scan nz lc cols rows (counter_incr key acc) = Inr res"
    by (auto split: sum.splits)
  from Cons.IH [OF rest] show ?case by (simp add: sum_counter_incr)
qed

text \<open>The keys that a scan counts, in the order of the rows.\<close>

lemma count_scan_keys:
  "count_scan nz lc cols rows acc = Inr res \<longleftrightarrow>
     (\<exists>keys. map (\<lambda>row. make_key nz lc row cols) rows = map Inr keys
            \<and> res = fold counter_incr keys acc)"
proof (induction rows arbitrary: acc)
  case Nil
  show ?case by auto
next
  case (Cons row rows)
  show ?case
  proof (cases "make_key nz lc row cols")
    case (Inl e)
    then show ?thesis by (auto simp: map_eq_Cons_conv)
  next
    case (Inr key)
    have "(\<exists>keys. Inr key # map (\<lambda>row. make_key nz lc row cols) rows = map Inr keys
                 \<and> res = fold counter_incr keys acc)
          \<longleftrightarrow> (\<exists>keys. map (\<lambda>row. make_key nz lc row cols) rows = map Inr keys
                 \<and> res = fold counter_incr keys (counter_incr key acc))"
      (is "?L \<longleftrightarrow> ?R")
    proof
      assume ?L
      then obtain keys where kr:
        "Inr key # map (\<lambda>row. make_key nz lc row cols) rows = map Inr keys
           \<and> res = fold counter_incr keys acc" ..
      then have k: "Inr key # map (\<lambda>row. make_key nz lc row cols) rows = map Inr keys"
        and r: "res = fold counter_incr keys acc" by simp_all
      from k obtain keys' where "keys = key # keys'"
        and "map (\<lambda>row. make_key nz lc row cols) rows = map Inr keys'"
        by (cases keys) auto
      with r show ?R by auto
    next
      assume ?R
      then obtain keys where "map (\<lambda>row. make_key nz lc row cols) rows = map Inr keys
        \<and> res = fold counter_incr keys (counter_incr key acc)" ..
      then have "Inr key # map (\<lambda>row. make_key nz lc row cols) rows = map Inr (key # keys)
                 \<and> res = fold counter_incr (key # keys) acc" by simp
      then show ?L by (rule exI)
    qed
    with Inr show ?thesis by (simp add: Cons.IH)
  qed
qed

lemma key_value_present:
  "row_item row col = Inr (Some v) \<Longrightarrow>
     key_value nz lc row col = Inr (Some (key_flags nz lc v))"
  by (simp add: key_value_def key_flags_def)

lemma make_key_ok:
  assumes "\<forall>col \<in> set cols. \<exists>v. row_item row col = Inr (Some v)"
  shows "\<exists>key. make_key nz lc row cols = Inr key"
  using assms
proof (induction cols)
  case Nil
  show ?case by simp
next
  case (Cons col cols)
  then obtain v key where "row_item row col = Inr (Some v)" and "make_key nz lc row cols = Inr key"
    by auto
  then show ?case by (simp add: key_value_present)
qed

lemma make_keys_ok:
  assumes "\<forall>row \<in> set rows. \<forall>col \<in> set cols. \<exists>v. row_item row col = Inr (Some v)"
  shows "\<exists>keys. map (\<lambda>row. make_key nz lc row cols) rows = map Inr keys"
  using assms
proof (induction rows)
  case Nil
  show ?case by simp
next
  case (Cons row rows)
  then obtain keys where k: "map (\<lambda>row. make_key nz lc row cols) rows = map Inr keys" by auto
  from Cons.prems obtain key where "make_key nz lc row cols = Inr key"
    using make_key_ok [of cols row nz lc] by auto
  with k have "map (\<lambda>row. make_key nz lc row cols) (row # rows) = map Inr (key # keys)" by simp
  then show ?case by blast
qed

text \<open>The table that the scan builds: its keys, their counts and their order.\<close>

lemma fst_counter_incr:
  "map fst (counter_incr k m) = (if k \<in> fst ` set m then map fst m else map fst m @ [k])"
  by (induction m) fastforce+

lemma map_of_counter_incr:
  "map_of (counter_incr k m) =
     (map_of m)(k \<mapsto> (case map_of m k of None \<Rightarrow> 1 | Some c \<Rightarrow> c + 1))"
  by (induction m) (auto simp: fun_eq_iff)

lemma fold_counter_snoc:
  "fold counter_incr (ks @ [k]) acc = counter_incr k (fold counter_incr ks acc)"
  by simp

lemma table_keys: "set (map fst (fold counter_incr ks [])) = set ks"
  by (induction ks rule: rev_induct) (auto simp: fst_counter_incr)

lemma table_distinct: "distinct (map fst (fold counter_incr ks []))"
proof (induction ks rule: rev_induct)
  case Nil
  show ?case by simp
next
  case (snoc k ks)
  then show ?case by (auto simp: fst_counter_incr)
qed

lemma table_counts:
  "map_of (fold counter_incr ks []) k =
     (if k \<in> set ks then Some (int (count_list ks k)) else None)"
proof (induction ks arbitrary: k rule: rev_induct)
  case Nil
  show ?case by simp
next
  case (snoc x ks)
  show ?case
    by (simp add: map_of_counter_incr snoc.IH)
qed

lemma first_index_less: "x \<in> set xs \<Longrightarrow> first_index xs x < length xs"
  unfolding first_index_def by (induction xs) auto

lemma first_index_append1: "x \<in> set xs \<Longrightarrow> first_index (xs @ ys) x = first_index xs x"
  unfolding first_index_def by (simp add: takeWhile_append1)

lemma first_index_new: "x \<notin> set xs \<Longrightarrow> first_index (xs @ [x]) x = length xs"
  unfolding first_index_def by (induction xs) auto

lemma table_order:
  "sorted_wrt (\<lambda>a b. first_index ks a < first_index ks b) (map fst (fold counter_incr ks []))"
proof (induction ks rule: rev_induct)
  case Nil
  show ?case by simp
next
  case (snoc k ks)
  let ?T = "fold counter_incr ks []"
  have keys: "set (map fst ?T) = set ks" by (rule table_keys)
  have old: "sorted_wrt (\<lambda>a b. first_index (ks @ [k]) a < first_index (ks @ [k]) b) (map fst ?T)"
  proof (rule sorted_wrt_mono_rel [OF _ snoc.IH])
    fix a b
    assume "a \<in> set (map fst ?T)" "b \<in> set (map fst ?T)" "first_index ks a < first_index ks b"
    with keys show "first_index (ks @ [k]) a < first_index (ks @ [k]) b"
      by (simp add: first_index_append1)
  qed
  show ?case
  proof (cases "k \<in> set ks")
    case True
    then show ?thesis using old keys by (simp add: fst_counter_incr)
  next
    case False
    have "\<forall>x \<in> set ks. first_index (ks @ [k]) x < first_index (ks @ [k]) k"
      using False by (simp add: first_index_append1 first_index_new first_index_less)
    then show ?thesis using old keys False
      by (simp add: fst_counter_incr sorted_wrt_append)
  qed
qed

section \<open>Sorting by descending count\<close>

text \<open>A stable sort keeps the order that the list has among items of equal key.\<close>

lemma insort_key_stable_wrt:
  assumes "\<forall>y \<in> set ys. R x y"
    and "sorted_wrt (\<lambda>a b. f a < f b \<or> (f a = f b \<and> R a b)) ys"
  shows "sorted_wrt (\<lambda>a b. f a < f b \<or> (f a = f b \<and> R a b)) (insort_key f x ys)"
  using assms
proof (induction ys)
  case Nil
  show ?case by simp
next
  case (Cons y ys)
  show ?case
  proof (cases "f x \<le> f y")
    case True
    have "\<forall>z \<in> set (y # ys). f x < f z \<or> (f x = f z \<and> R x z)"
    proof
      fix z assume z: "z \<in> set (y # ys)"
      then have "f y \<le> f z" using Cons.prems(2) by auto
      with True have "f x \<le> f z" by simp
      moreover have "R x z" using Cons.prems(1) z by auto
      ultimately show "f x < f z \<or> (f x = f z \<and> R x z)" by auto
    qed
    with True Cons.prems(2) show ?thesis by simp
  next
    case False
    have ih: "sorted_wrt (\<lambda>a b. f a < f b \<or> (f a = f b \<and> R a b)) (insort_key f x ys)"
      using Cons.IH Cons.prems by simp
    have "\<forall>z \<in> set (insort_key f x ys). f y < f z \<or> (f y = f z \<and> R y z)"
      using False Cons.prems(2) by (auto simp: set_insort_key)
    with False ih show ?thesis by simp
  qed
qed

lemma sort_key_stable_wrt:
  "sorted_wrt R xs \<Longrightarrow>
     sorted_wrt (\<lambda>a b. f a < f b \<or> (f a = f b \<and> R a b)) (sort_key f xs)"
proof (induction xs)
  case Nil
  show ?case by simp
next
  case (Cons x xs)
  then show ?case by (simp add: insort_key_stable_wrt)
qed

lemma sorted_by_count_desc_wrt:
  assumes "sorted_wrt R items"
  shows "sorted_wrt (\<lambda>a b. snd b < snd a \<or> (snd a = snd b \<and> R a b))
           (sorted_by_count_desc items)"
proof -
  have "sorted_wrt (\<lambda>a b. - snd a < - snd b \<or> (- snd a = - snd b \<and> R a b))
           (sort_key (\<lambda>item. - snd item) items)"
    using assms by (rule sort_key_stable_wrt)
  then show ?thesis by (simp add: sorted_by_count_desc_def)
qed

lemma sorted_by_count_desc_idem:
  "sorted_by_count_desc (sorted_by_count_desc items) = sorted_by_count_desc items"
  unfolding sorted_by_count_desc_def
  by (rule sort_key_id_if_sorted) (rule sorted_sort_key)

lemma sorted_by_count_desc_set [simp]: "set (sorted_by_count_desc items) = set items"
  by (simp add: sorted_by_count_desc_def)

lemma sorted_by_count_desc_length [simp]: "length (sorted_by_count_desc items) = length items"
  by (simp add: sorted_by_count_desc_def)

lemma distinct_map_insort_key:
  "distinct (map g (insort_key f x xs)) \<longleftrightarrow> g x \<notin> g ` set xs \<and> distinct (map g xs)"
  by (induction xs) (auto simp: set_insort_key)

lemma distinct_map_sort_key: "distinct (map g (sort_key f xs)) \<longleftrightarrow> distinct (map g xs)"
  by (induction xs) (auto simp: distinct_map_insort_key)

lemma sorted_by_count_desc_distinct:
  "distinct (map fst (sorted_by_count_desc items)) = distinct (map fst items)"
  by (simp add: sorted_by_count_desc_def distinct_map_sort_key)

section \<open>Properties of \<open>count_by_columns\<close>\<close>

lemma count_by_columns_unfold:
  assumes "count_by_columns fs csv_file cols nz lc = Inr counts" and "fs csv_file = Some recs"
  shows "validate_csv_and_columns fs csv_file cols = Inr ()
       \<and> (\<exists>keys. map (\<lambda>row. make_key nz lc row cols) (dict_rows recs) = map Inr keys
                 \<and> counts = sorted_by_count_desc (fold counter_incr keys []))"
proof -
  from assms obtain T where v: "validate_csv_and_columns fs csv_file cols = Inr ()"
    and T: "count_scan nz lc cols (dict_rows recs) [] = Inr T"
    and c: "counts = sorted_by_count_desc T"
    by (auto simp: count_by_columns_def open_file_def split: sum.splits)
  from T obtain keys where "map (\<lambda>row. make_key nz lc row cols) (dict_rows recs) = map Inr keys
      \<and> T = fold counter_incr keys []"
    unfolding count_scan_keys ..
  with v c show ?thesis by blast
qed

lemma count_by_columns_fold:
  assumes "validate_csv_and_columns fs csv_file cols = Inr ()" and "fs csv_file = Some recs"
    and "map (\<lambda>row. make_key nz lc row cols) (dict_rows recs) = map Inr keys"
  shows "count_by_columns fs csv_file cols nz lc
           = Inr (sorted_by_count_desc (fold counter_incr keys []))"
proof -
  from assms(3) have "count_scan nz lc cols (dict_rows recs) [] = Inr (fold counter_incr keys [])"
    unfolding count_scan_keys by blast
  with assms(1,2) show ?thesis
    by (simp add: count_by_columns_def open_file_def)
qed

lemma cells_present:
  assumes v: "validate_csv_and_columns fs csv_file cols = Inr ()"
    and f: "fs csv_file = Some recs"
    and present: "\<forall>row \<in> set (dict_rows recs). \<forall>col \<in> set cols. row_item row col \<noteq> Inr None"
  shows "\<forall>row \<in> set (dict_rows recs). \<forall>col \<in> set cols. \<exists>v. row_item row col = Inr (Some v)"
proof (intro ballI)
  fix row col assume row: "row \<in> set (dict_rows recs)" and col: "col \<in> set cols"
  from validate_ok [OF v] f obtain header body where recs: "recs = header # body"
    and cols: "\<forall>c \<in> set cols. \<exists>n. c = Some n \<and> n \<in> set header" by auto
  from cols col obtain n where n: "col = Some n" "n \<in> set header" by auto
  from row_item_present [OF row [unfolded recs] n(2)] obtain x where "row_item row col = Inr x"
    using n(1) by auto
  moreover from present row col have "row_item row col \<noteq> Inr None" by blast
  ultimately show "\<exists>v. row_item row col = Inr (Some v)" by (cases x) auto
qed

text \<open>
  Where no data row lacks a cell of a grouped column, the counts are as they should
  be. For a source and a column list that pass validation, \<open>count_by_columns\<close>
  then returns counts that sum to the number of data rows: every row has exactly one
  key, the keys returned are distinct, and the count of a key is the number of rows
  that have it. A row with an empty cell is not skipped: the empty cell is the empty
  string in the key of its row.
\<close>

lemma counts_sum_when_cells_present:
  assumes v: "validate_csv_and_columns fs csv_file cols = Inr ()"
    and f: "fs csv_file = Some recs"
    and present: "\<forall>row \<in> set (dict_rows recs). \<forall>col \<in> set cols. row_item row col \<noteq> Inr None"
  shows "\<exists>counts keys.
           count_by_columns fs csv_file cols nz lc = Inr counts
         \<and> map (\<lambda>row. make_key nz lc row cols) (dict_rows recs) = map Inr keys
         \<and> sum_list (map snd counts) = int (length (dict_rows recs))
         \<and> distinct (map fst counts)
         \<and> (\<forall>k. map_of counts k
                 = (if k \<in> set keys then Some (int (count_list keys k)) else None))
         \<and> (\<forall>row \<in> set (dict_rows recs). \<forall>col \<in> set cols.
               row_item row col = Inr (Some []) \<longrightarrow> key_value nz lc row col = Inr (Some []))"
proof -
  let ?rows = "dict_rows recs"
  from cells_present [OF v f present]
  have "\<forall>row \<in> set ?rows. \<forall>col \<in> set cols. \<exists>v. row_item row col = Inr (Some v)" .
  from make_keys_ok [OF this] obtain keys where
    keys: "map (\<lambda>row. make_key nz lc row cols) ?rows = map Inr keys" by blast
  let ?T = "fold counter_incr keys []"
  let ?counts = "sorted_by_count_desc ?T"
  have res: "count_by_columns fs csv_file cols nz lc = Inr ?counts"
    by (rule count_by_columns_fold [OF v f keys])
  have len: "length keys = length ?rows"
    using keys by (metis length_map)
  have scan: "count_scan nz lc cols ?rows [] = Inr ?T"
    unfolding count_scan_keys using keys by blast
  have sum: "sum_list (map snd ?counts) = int (length ?rows)"
    using count_scan_sum [OF scan] by (simp add: sum_sorted_by_count_desc)
  have dist: "distinct (map fst ?counts)"
    by (simp add: sorted_by_count_desc_distinct table_distinct)
  have "map_of ?counts = map_of ?T"
    using dist table_distinct [of keys] by (simp add: map_of_inject_set)
  then have cnt: "\<forall>k. map_of ?counts k
                 = (if k \<in> set keys then Some (int (count_list keys k)) else None)"
    by (simp add: table_counts)
  have empty: "\<forall>row \<in> set ?rows. \<forall>col \<in> set cols.
               row_item row col = Inr (Some []) \<longrightarrow> key_value nz lc row col = Inr (Some [])"
    by (simp add: key_value_present key_flags_def replace_space_def str_lower_def)
  from res keys sum dist cnt empty show ?thesis by blast
qed

lemma counts_sum_when_cells_present_example:
  "validate_csv_and_columns fs_breeds ''dogs.csv'' [Some ''Breed'', Some ''LicenseType''] = Inr ()
   \<and> (\<exists>counts. count_by_columns fs_breeds ''dogs.csv'' [Some ''Breed'', Some ''LicenseType'']
                  True False = Inr counts
              \<and> sum_list (map snd counts) = 5
              \<and> map_of counts [Some ''DACHSHUND'', Some []] = Some 2)"
proof -
  let ?recs = "[[''Breed'', ''LicenseType''],
                [''Bichon Frise'', ''Dog Individual Male''],
                [''DACHSHUND'', []],
                [],
                [''BICHON FRISE'', ''Dog Individual Male''],
                [''DACHSHUND'', []],
                [''SCHNOODLE'', ''Dog Senior Citizen'']]"
  have v: "validate_csv_and_columns fs_breeds ''dogs.csv'' [Some ''Breed'', Some ''LicenseType'']
             = Inr ()"
    by code_simp
  have f: "fs_breeds ''dogs.csv'' = Some ?recs" by code_simp
  have p: "\<forall>row \<in> set (dict_rows ?recs). \<forall>col \<in> set [Some ''Breed'', Some ''LicenseType''].
             row_item row col \<noteq> Inr None"
    by code_simp
  have n: "int (length (dict_rows ?recs)) = 5" by code_simp
  have e: "count_by_columns fs_breeds ''dogs.csv'' [Some ''Breed'', Some ''LicenseType'']
             True False =
           Inr [([Some ''DACHSHUND'', Some []], 2),
                ([Some ''BichonFrise'', Some ''DogIndividualMale''], 1),
                ([Some ''BICHONFRISE'', Some ''DogIndividualMale''], 1),
                ([Some ''SCHNOODLE'', Some ''DogSeniorCitizen''], 1)]"
    by code_simp
  from counts_sum_when_cells_present [OF v f p, of True False] v e
  show ?thesis by simp
qed

text \<open>
  C4 at a source with a short row. The source passes validation and has one data row,
  which has no cell for \<open>LicenseType\<close>: the reader gives \<open>None\<close> for it. With
  \<open>normalize\<close> set (the default) \<open>count_by_columns\<close> calls \<open>replace\<close> on that
  \<open>None\<close>, which raises \<open>AttributeError\<close>: no counts are returned, where the row should
  be counted once under a key that holds the empty string for the missing cell. With
  both flags off the row is counted, under a key that holds \<open>None\<close>.
\<close>

theorem count_by_columns_missing_cell_raises:
  "validate_csv_and_columns fs_ragged ''dogs.csv'' [Some ''Breed'', Some ''LicenseType'']
     = Inr ()
   \<and> dict_rows [[''Breed'', ''LicenseType''], [''DACHSHUND'']]
     = [[(''Breed'', Some ''DACHSHUND''), (''LicenseType'', None)]]
   \<and> count_by_columns fs_ragged ''dogs.csv'' [Some ''Breed'', Some ''LicenseType''] True False
     = Inl AttributeError
   \<and> count_by_columns fs_ragged ''dogs.csv'' [Some ''Breed'', Some ''LicenseType''] False False
     = Inr [([Some ''DACHSHUND'', None], 1)]"
  by code_simp

theorem count_by_columns_missing_cell_raises_witness:
  "\<exists>e. count_by_columns fs_ragged ''dogs.csv'' [Some ''Breed'', Some ''LicenseType'']
          True False = Inl e"
proof -
  from count_by_columns_missing_cell_raises
  have "count_by_columns fs_ragged ''dogs.csv'' [Some ''Breed'', Some ''LicenseType'']
          True False = Inl AttributeError"
    by simp
  then show ?thesis by (rule exI)
qed

section \<open>Properties of \<open>top_n_values\<close>\<close>

text \<open>Grouping on one column: the keys are the one-element tuples of the column's values.\<close>

lemma single_keys:
  "map (\<lambda>row. make_key nz lc row [col]) rows = map Inr keys \<Longrightarrow>
     \<exists>vals. map (\<lambda>row. key_value nz lc row col) rows = map Inr vals
            \<and> keys = map (\<lambda>v. [v]) vals"
proof (induction rows arbitrary: keys)
  case Nil
  then show ?case by simp
next
  case (Cons row rows)
  from Cons.prems obtain k ks where keys: "keys = k # ks"
    and k: "make_key nz lc row [col] = Inr k"
    and ks: "map (\<lambda>row. make_key nz lc row [col]) rows = map Inr ks"
    by (cases keys) auto
  from k obtain v where v: "key_value nz lc row col = Inr v" and kv: "k = [v]"
    by (auto split: sum.splits)
  from Cons.IH [OF ks] obtain vals where
    "map (\<lambda>row. key_value nz lc row col) rows = map Inr vals \<and> ks = map (\<lambda>v. [v]) vals" ..
  with v kv keys have "map (\<lambda>row. key_value nz lc row col) (row # rows) = map Inr (v # vals)
      \<and> keys = map (\<lambda>v. [v]) (v # vals)" by simp
  then show ?case by (rule exI)
qed

lemma counter_incr_map:
  "inj f \<Longrightarrow> counter_incr (f k) (map (\<lambda>(k, c). (f k, c)) acc)
             = map (\<lambda>(k, c). (f k, c)) (counter_incr k acc)"
  by (induction acc) (auto dest: injD)

lemma fold_counter_incr_map:
  "inj f \<Longrightarrow> fold counter_incr (map f ks) (map (\<lambda>(k, c). (f k, c)) acc)
             = map (\<lambda>(k, c). (f k, c)) (fold counter_incr ks acc)"
  by (induction ks arbitrary: acc) (simp_all add: counter_incr_map)

lemma insort_key_map:
  "insort_key f (g x) (map g xs) = map g (insort_key (\<lambda>y. f (g y)) x xs)"
  by (induction xs) auto

lemma sort_key_map: "sort_key f (map g xs) = map g (sort_key (\<lambda>y. f (g y)) xs)"
  by (induction xs) (simp_all add: insort_key_map)

lemma sorted_by_count_desc_map:
  "sorted_by_count_desc (map (\<lambda>(k, c). (f k, c)) items)
     = map (\<lambda>(k, c). (f k, c)) (sorted_by_count_desc items)"
  by (simp add: sorted_by_count_desc_def sort_key_map case_prod_beta)

lemma dict_set_new: "k \<notin> fst ` set d \<Longrightarrow> dict_set k v d = d @ [(k, v)]"
  by (induction d) auto

lemma first_components_singletons:
  "distinct (map fst d @ map fst xs) \<Longrightarrow>
     first_components (map (\<lambda>(v, c). ([v], c)) xs) d = Inr (d @ xs)"
proof (induction xs arbitrary: d)
  case Nil
  show ?case by simp
next
  case (Cons x xs)
  obtain v c where x: "x = (v, c)" by (cases x)
  from Cons.prems x have new: "v \<notin> fst ` set d" by auto
  from Cons.prems x have "distinct (map fst (d @ [(v, c)]) @ map fst xs)" by auto
  from Cons.IH [OF this] x new show ?case by (simp add: dict_set_new)
qed

lemma most_common_sorted:
  "most_common n (sorted_by_count_desc items) = take (nat n) (sorted_by_count_desc items)"
  by (simp add: most_common_def sorted_by_count_desc_idem)

lemma count_list_map_inj: "inj f \<Longrightarrow> count_list (map f xs) (f x) = count_list xs x"
  by (induction xs) (auto dest: injD)

text \<open>
  Where grouping on the single column returns, the ranking is as it should be. Let
  \<open>ranking\<close> be what \<open>count_by_columns\<close> returns for the single column. Then
  \<open>top_n_values\<close> returns the first \<open>n\<close> pairs of that ranking, each one-element key
  replaced by its value: at most \<open>max n 0\<close> pairs, none for \<open>n \<le> 0\<close>, and all of
  them when \<open>n\<close> is at least the number of distinct values. Every pair holds a value
  with the number of rows that have it. The pairs are in descending order of count,
  and of two values with the same count the one met first in the scan comes first.
\<close>

lemma top_n_values_of_ranking:
  assumes c: "count_by_columns fs csv_file [col] nz lc = Inr ranking"
    and f: "fs csv_file = Some recs"
  shows "\<exists>top full vals.
           top_n_values fs csv_file col n nz lc = Inr top
         \<and> map (\<lambda>row. key_value nz lc row col) (dict_rows recs) = map Inr vals
         \<and> ranking = map (\<lambda>(v, c). ([v], c)) full
         \<and> top = take (nat n) full
         \<and> length top \<le> nat (max n 0)
         \<and> (n \<le> 0 \<longrightarrow> top = [])
         \<and> length full = card (set vals)
         \<and> (int (card (set vals)) \<le> n \<longrightarrow> top = full)
         \<and> (\<forall>(v, c) \<in> set top. c = int (count_list vals v))
         \<and> sorted_wrt (\<lambda>a b. snd b < snd a \<or>
                (snd a = snd b \<and> first_index vals (fst a) < first_index vals (fst b))) top"
proof -
  from count_by_columns_unfold [OF c f] obtain keys where
    v: "validate_csv_and_columns fs csv_file [col] = Inr ()"
    and keys: "map (\<lambda>row. make_key nz lc row [col]) (dict_rows recs) = map Inr keys"
    and rk: "ranking = sorted_by_count_desc (fold counter_incr keys [])"
    by auto
  from single_keys [OF keys] obtain vals where
    vals: "map (\<lambda>row. key_value nz lc row col) (dict_rows recs) = map Inr vals"
    and kv: "keys = map (\<lambda>v. [v]) vals" by auto
  let ?T = "fold counter_incr vals []"
  let ?full = "sorted_by_count_desc ?T"
  let ?top = "take (nat n) ?full"
  have inj: "inj (\<lambda>v::string option. [v])" by (simp add: inj_def)
  have "fold counter_incr keys [] = map (\<lambda>(v, c). ([v], c)) ?T"
    using fold_counter_incr_map [OF inj, of vals "[]"] kv by simp
  then have rf: "ranking = map (\<lambda>(v, c). ([v], c)) ?full"
    by (simp add: rk sorted_by_count_desc_map)
  have dist: "distinct (map fst ?full)"
    by (simp add: sorted_by_count_desc_distinct table_distinct)
  have fc: "first_components ranking [] = Inr ?full"
    unfolding rf using first_components_singletons [of "[]" ?full] dist by simp
  have top: "top_n_values fs csv_file col n nz lc = Inr ?top"
    using v c fc by (simp add: top_n_values_def most_common_sorted)
  have len: "length ?top \<le> nat (max n 0)" by simp
  have neg: "n \<le> 0 \<longrightarrow> ?top = []" by simp
  have "length ?full = length (map fst ?T)" by simp
  also have "\<dots> = card (set (map fst ?T))"
    using table_distinct [of vals] by (simp only: distinct_card)
  also have "\<dots> = card (set vals)" by (simp only: table_keys)
  finally have card: "length ?full = card (set vals)" .
  have all: "int (card (set vals)) \<le> n \<longrightarrow> ?top = ?full"
    using card by simp
  have cnt: "\<forall>(v, c) \<in> set ?top. c = int (count_list vals v)"
  proof (clarify)
    fix v c assume "(v, c) \<in> set ?top"
    then have "(v, c) \<in> set ?T" by (auto dest: in_set_takeD)
    with table_distinct [of vals] have "map_of ?T v = Some c" by simp
    then show "c = int (count_list vals v)"
      by (simp add: table_counts split: if_splits)
  qed
  have "sorted_wrt (\<lambda>a b. first_index vals (fst a) < first_index vals (fst b)) ?T"
    using table_order [of vals] by (simp add: sorted_wrt_map)
  then have "sorted_wrt (\<lambda>a b. snd b < snd a \<or>
                (snd a = snd b \<and> first_index vals (fst a) < first_index vals (fst b))) ?full"
    by (rule sorted_by_count_desc_wrt)
  then have ord: "sorted_wrt (\<lambda>a b. snd b < snd a \<or>
                (snd a = snd b \<and> first_index vals (fst a) < first_index vals (fst b))) ?top"
    by (rule sorted_wrt_take)
  from top vals rf len neg card all cnt ord show ?thesis by blast
qed

lemma top_n_values_of_ranking_example:
  "\<exists>top. top_n_values fs_breeds ''dogs.csv'' (Some ''Breed'') 2 True True = Inr top
         \<and> top = [(Some ''bichonfrise'', 2), (Some ''dachshund'', 2)]
         \<and> length top \<le> nat (max 2 0)
         \<and> sorted_wrt (\<lambda>a b. snd b < snd a \<or>
              (snd a = snd b \<and>
               first_index [Some ''bichonfrise'', Some ''dachshund'', Some ''bichonfrise'',
                            Some ''dachshund'', Some ''schnoodle''] (fst a)
               < first_index [Some ''bichonfrise'', Some ''dachshund'', Some ''bichonfrise'',
                              Some ''dachshund'', Some ''schnoodle''] (fst b))) top"
proof -
  let ?recs = "[[''Breed'', ''LicenseType''],
                [''Bichon Frise'', ''Dog Individual Male''],
                [''DACHSHUND'', []],
                [],
                [''BICHON FRISE'', ''Dog Individual Male''],
                [''DACHSHUND'', []],
                [''SCHNOODLE'', ''Dog Senior Citizen'']]"
  have c: "count_by_columns fs_breeds ''dogs.csv'' [Some ''Breed''] True True
             = Inr [([Some ''bichonfrise''], 2), ([Some ''dachshund''], 2),
                    ([Some ''schnoodle''], 1)]"
    by code_simp
  have f: "fs_breeds ''dogs.csv'' = Some ?recs" by code_simp
  have vals: "map (\<lambda>row. key_value True True row (Some ''Breed'')) (dict_rows ?recs)
     = map Inr [Some ''bichonfrise'', Some ''dachshund'', Some ''bichonfrise'',
                Some ''dachshund'', Some ''schnoodle'']"
    by code_simp
  have e: "top_n_values fs_breeds ''dogs.csv'' (Some ''Breed'') 2 True True
     = Inr [(Some ''bichonfrise'', 2), (Some ''dachshund'', 2)]"
    by code_simp
  from top_n_values_of_ranking [OF c f, of 2] obtain top full vals' where
    t: "top_n_values fs_breeds ''dogs.csv'' (Some ''Breed'') 2 True True = Inr top"
    and v': "map (\<lambda>row. key_value True True row (Some ''Breed'')) (dict_rows ?recs) = map Inr vals'"
    and l: "length top \<le> nat (max 2 0)"
    and s: "sorted_wrt (\<lambda>a b. snd b < snd a \<or>
                (snd a = snd b \<and> first_index vals' (fst a) < first_index vals' (fst b))) top"
    by blast
  from v' vals have "map Inr vals' = (map Inr [Some ''bichonfrise'', Some ''dachshund'',
       Some ''bichonfrise'', Some ''dachshund'', Some ''schnoodle''] :: (py_error + string option) list)"
    by simp
  then have "vals' = [Some ''bichonfrise'', Some ''dachshund'', Some ''bichonfrise'',
                Some ''dachshund'', Some ''schnoodle'']"
    by (simp add: map_eq_Cons_conv)
  with t e l s show ?thesis by auto
qed

text \<open>
  C5 at a source with a short row. The source and the column \<open>LicenseType\<close> pass
  validation, and the one data row has no cell for that column. \<open>top_n_values\<close>
  raises \<open>AttributeError\<close> for every \<open>n\<close>, where for \<open>n \<le> 0\<close> the empty sequence
  should be returned and for \<open>n = 5\<close> the one value of the column with its count: the
  error is that of \<open>count_by_columns\<close>, which it calls, on the \<open>None\<close> of the
  missing cell.
\<close>

theorem top_n_values_missing_cell_raises:
  "validate_csv_and_columns fs_ragged ''dogs.csv'' [Some ''LicenseType''] = Inr ()
   \<and> top_n_values fs_ragged ''dogs.csv'' (Some ''LicenseType'') 0 True False
     = Inl AttributeError
   \<and> top_n_values fs_ragged ''dogs.csv'' (Some ''LicenseType'') (- 1) True False
     = Inl AttributeError
   \<and> top_n_values fs_ragged ''dogs.csv'' (Some ''LicenseType'') 5 True False
     = Inl AttributeError"
  by code_simp

theorem top_n_values_missing_cell_raises_witness:
  "\<exists>e. top_n_values fs_ragged ''dogs.csv'' (Some ''LicenseType'') 0 True False = Inl e"
proof -
  from top_n_values_missing_cell_raises
  have "top_n_values fs_ragged ''dogs.csv'' (Some ''LicenseType'') 0 True False
          = Inl AttributeError"
    by simp
  then show ?thesis by (rule exI)
qed

section \<open>Properties of \<open>values_in_date_range\<close>\<close>

lemma project_ok:
  "\<forall>col \<in> set cols. \<exists>v. row_item row col = Inr v \<Longrightarrow> \<exists>r. project row cols d = Inr r"
  by (induction cols arbitrary: d) auto

lemma validated_rows:
  assumes v: "validate_csv_and_columns fs csv_file cols = Inr ()"
    and f: "fs csv_file = Some recs"
  shows "\<forall>row \<in> set (dict_rows recs). \<forall>col \<in> set cols. \<exists>v. row_item row col = Inr v"
proof (intro ballI)
  fix row col assume row: "row \<in> set (dict_rows recs)" and col: "col \<in> set cols"
  from validate_ok [OF v] f obtain header body where recs: "recs = header # body"
    and cols: "\<forall>c \<in> set cols. \<exists>n. c = Some n \<and> n \<in> set header" by auto
  from cols col obtain n where n: "col = Some n" "n \<in> set header" by auto
  from row_item_present [OF row [unfolded recs] n(2)] n(1)
  show "\<exists>v. row_item row col = Inr v" by simp
qed

lemma date_scan_empty:
  "empty_date row dc \<Longrightarrow>
     date_scan dc st en tcs (row # rows) acc = date_scan dc st en tcs rows acc"
  by (auto simp: empty_date_def)

lemma date_scan_malformed:
  "malformed_date row dc v \<Longrightarrow>
     date_scan dc st en tcs (row # rows) acc = Inl (invalid_date_error dc v)"
  by (auto simp: malformed_date_def invalid_date_error_def split: sum.splits)

lemma date_scan_parsed:
  assumes "row_item row dc = Inr (Some v)" and "v \<noteq> []" and "strptime_datetime v = Inr d"
    and "\<forall>col \<in> set tcs. \<exists>x. row_item row col = Inr x"
  shows "\<exists>acc'. date_scan dc st en tcs (row # rows) acc = date_scan dc st en tcs rows acc'
           \<and> (\<not> (datetime_le st d \<and> datetime_le d en) \<longrightarrow> acc' = acc)"
proof -
  from project_ok [OF assms(4)] obtain r where "project row tcs [] = Inr r" by blast
  with assms(1-3) show ?thesis by auto
qed

lemma well_dated_cases:
  assumes "well_dated row dc"
  obtains "empty_date row dc"
  | v d where "row_item row dc = Inr (Some v)" "v \<noteq> []" "strptime_datetime v = Inr d"
proof (cases "empty_date row dc")
  case True
  then show ?thesis by (rule that(1))
next
  case False
  with assms obtain v where v: "row_item row dc = Inr (Some v)" "\<not> isl (strptime_datetime v)"
    by (auto simp: well_dated_def)
  from False v(1) have "v \<noteq> []" by (auto simp: empty_date_def)
  moreover from v(2) obtain d where "strptime_datetime v = Inr d"
    by (cases "strptime_datetime v") auto
  ultimately show ?thesis using v(1) by (rule_tac that(2))
qed

lemma date_scan_filter:
  "date_scan dc st en tcs (filter (\<lambda>row. \<not> empty_date row dc) rows) acc
     = date_scan dc st en tcs rows acc"
proof (induction rows arbitrary: acc)
  case Nil
  show ?case by simp
next
  case (Cons row rows)
  show ?case
  proof (cases "empty_date row dc")
    case True
    then show ?thesis by (simp add: date_scan_empty Cons.IH del: date_scan.simps)
  next
    case False
    then show ?thesis
      by (simp add: Cons.IH split: sum.splits option.splits)
  qed
qed

lemma date_scan_first_malformed:
  assumes "\<forall>r \<in> set rows1. well_dated r dc"
    and "\<forall>r \<in> set rows1. \<forall>col \<in> set tcs. \<exists>x. row_item r col = Inr x"
    and "malformed_date row dc v"
  shows "date_scan dc st en tcs (rows1 @ row # rows2) acc = Inl (invalid_date_error dc v)"
  using assms(1,2)
proof (induction rows1 arbitrary: acc)
  case Nil
  show ?case using assms(3) by (simp add: date_scan_malformed del: date_scan.simps)
next
  case (Cons r rows1)
  from Cons.prems have wd: "well_dated r dc" by simp
  have ih: "\<And>acc. date_scan dc st en tcs (rows1 @ row # rows2) acc = Inl (invalid_date_error dc v)"
    using Cons.IH Cons.prems by simp
  from wd show ?case
  proof (cases rule: well_dated_cases)
    case 1
    then show ?thesis by (simp add: date_scan_empty ih del: date_scan.simps)
  next
    case (2 x d)
    from Cons.prems(2) have "\<forall>col \<in> set tcs. \<exists>x. row_item r col = Inr x" by simp
    from date_scan_parsed [OF 2 this, of st en "rows1 @ row # rows2" acc] ih
    show ?thesis by auto
  qed
qed

lemma datetime_le_trans: "datetime_le a b \<Longrightarrow> datetime_le b c \<Longrightarrow> datetime_le a c"
  unfolding datetime_le_def by (rule order_trans)

lemma date_scan_inverted:
  assumes inv: "\<not> datetime_le st en"
    and "\<forall>r \<in> set rows. \<forall>col \<in> set (dc # tcs). \<exists>x. row_item r col = Inr x"
  shows "date_scan dc st en tcs rows acc = Inr acc
       \<or> (\<exists>v. date_scan dc st en tcs rows acc = Inl (invalid_date_error dc v))"
  using assms(2)
proof (induction rows)
  case Nil
  show ?case by simp
next
  case (Cons r rows)
  then have ih: "date_scan dc st en tcs rows acc = Inr acc
       \<or> (\<exists>v. date_scan dc st en tcs rows acc = Inl (invalid_date_error dc v))" by simp
  from Cons.prems obtain x where x: "row_item r dc = Inr x" by auto
  from Cons.prems have tc: "\<forall>col \<in> set tcs. \<exists>x. row_item r col = Inr x" by simp
  show ?case
  proof (cases "empty_date r dc")
    case True
    then show ?thesis using ih by (simp add: date_scan_empty del: date_scan.simps)
  next
    case False
    with x obtain v where v: "row_item r dc = Inr (Some v)" "v \<noteq> []"
      by (cases x) (auto simp: empty_date_def)
    show ?thesis
    proof (cases "strptime_datetime v")
      case (Inl e)
      with v have "malformed_date r dc v" by (simp add: malformed_date_def)
      then show ?thesis by (auto simp add: date_scan_malformed simp del: date_scan.simps)
    next
      case (Inr d)
      have "\<not> (datetime_le st d \<and> datetime_le d en)"
        using inv datetime_le_trans by blast
      with date_scan_parsed [OF v Inr tc, of st en rows acc] ih
      show ?thesis by auto
    qed
  qed
qed

lemma date_scan_inverted_ok:
  assumes inv: "\<not> datetime_le st en"
    and "\<forall>r \<in> set rows. \<forall>col \<in> set (dc # tcs). \<exists>x. row_item r col = Inr x"
    and "\<forall>r \<in> set rows. well_dated r dc"
  shows "date_scan dc st en tcs rows acc = Inr acc"
  using assms(2,3)
proof (induction rows)
  case Nil
  show ?case by simp
next
  case (Cons r rows)
  then have ih: "date_scan dc st en tcs rows acc = Inr acc" by simp
  from Cons.prems have tc: "\<forall>col \<in> set tcs. \<exists>x. row_item r col = Inr x" by simp
  from Cons.prems have "well_dated r dc" by simp
  then show ?case
  proof (cases rule: well_dated_cases)
    case 1
    then show ?thesis using ih by (simp add: date_scan_empty del: date_scan.simps)
  next
    case (2 v d)
    have "\<not> (datetime_le st d \<and> datetime_le d en)"
      using inv datetime_le_trans by blast
    with date_scan_parsed [OF 2 tc, of st en rows acc] ih
    show ?thesis by auto
  qed
qed

lemma values_in_date_range_scan:
  assumes "validate_csv_and_columns fs csv_file (dc # tcs) = Inr ()"
    and "fs csv_file = Some recs"
    and "strptime_date start_date = Inr st" and "strptime_date end_date = Inr en"
  shows "values_in_date_range fs csv_file dc start_date end_date tcs
           = date_scan dc st en tcs (dict_rows recs) []"
  using assms by (simp add: values_in_date_range_def open_file_def)

text \<open>
  C3. Let the source and the columns pass validation and both window bounds parse.
  Then the rows whose date value is empty are skipped silently: the call returns what
  the scan of the other rows returns. And when a row has a date value that is not
  empty and does not parse, while every row before it has an empty date value or one
  that parses, the call returns no rows but the error that names the date column and
  that raw value.
\<close>

theorem values_in_date_range_empty_skipped_malformed_fatal:
  assumes v: "validate_csv_and_columns fs csv_file (dc # tcs) = Inr ()"
    and f: "fs csv_file = Some recs"
    and s: "strptime_date start_date = Inr st" and e: "strptime_date end_date = Inr en"
  shows "values_in_date_range fs csv_file dc start_date end_date tcs
           = date_scan dc st en tcs (filter (\<lambda>row. \<not> empty_date row dc) (dict_rows recs)) []
       \<and> (\<forall>rows1 row rows2 x.
             dict_rows recs = rows1 @ row # rows2
             \<and> (\<forall>r \<in> set rows1. well_dated r dc) \<and> malformed_date row dc x
             \<longrightarrow> values_in_date_range fs csv_file dc start_date end_date tcs
                   = Inl (invalid_date_error dc x))"
proof -
  have scan: "values_in_date_range fs csv_file dc start_date end_date tcs
           = date_scan dc st en tcs (dict_rows recs) []"
    by (rule values_in_date_range_scan [OF v f s e])
  have skip: "values_in_date_range fs csv_file dc start_date end_date tcs
           = date_scan dc st en tcs (filter (\<lambda>row. \<not> empty_date row dc) (dict_rows recs)) []"
    by (simp only: scan date_scan_filter)
  have rows: "\<forall>row \<in> set (dict_rows recs). \<forall>col \<in> set (dc # tcs). \<exists>v. row_item row col = Inr v"
    by (rule validated_rows [OF v f])
  have abort: "\<forall>rows1 row rows2 x.
             dict_rows recs = rows1 @ row # rows2
             \<and> (\<forall>r \<in> set rows1. well_dated r dc) \<and> malformed_date row dc x
             \<longrightarrow> values_in_date_range fs csv_file dc start_date end_date tcs
                   = Inl (invalid_date_error dc x)"
  proof (intro allI impI, elim conjE)
    fix rows1 row rows2 x
    assume split: "dict_rows recs = rows1 @ row # rows2"
      and wd: "\<forall>r \<in> set rows1. well_dated r dc" and bad: "malformed_date row dc x"
    from rows split have "\<forall>r \<in> set rows1. \<forall>col \<in> set tcs. \<exists>x. row_item r col = Inr x"
      by simp
    from date_scan_first_malformed [OF wd this bad, of st en rows2 "[]"]
    show "values_in_date_range fs csv_file dc start_date end_date tcs
                   = Inl (invalid_date_error dc x)"
      by (simp only: scan split)
  qed
  from skip abort show ?thesis by (rule conjI)
qed

theorem values_in_date_range_empty_skipped_malformed_fatal_witness:
  "values_in_date_range fs_dates ''dogs.csv'' (Some ''ValidDate'') ''1/4/2017'' ''2/4/2017''
       [Some ''DogName'']
     = date_scan (Some ''ValidDate'')
         \<lparr>year = 2017, month = 1, day = 4, hour = 0, minute = 0\<rparr>
         \<lparr>year = 2017, month = 2, day = 4, hour = 0, minute = 0\<rparr> [Some ''DogName'']
         (filter (\<lambda>row. \<not> empty_date row (Some ''ValidDate''))
            (dict_rows [[''DogName'', ''ValidDate''],
                     [''RILEY'', ''1/4/2017 8:39''],
                     [''REX'', []],
                     [''BELLA'', ''12/31/2016 23:59''],
                     [''LUNA'', ''2/4/2017 0:00''],
                     [''MAX'', ''2/4/2017 8:39'']])) []
   \<and> values_in_date_range fs_bad_date ''dogs.csv'' (Some ''ValidDate'') ''1/4/2017'' ''2/4/2017''
       [Some ''DogName'']
     = Inl (invalid_date_error (Some ''ValidDate'') ''2017-01-04'')"
proof -
  let ?dc = "Some ''ValidDate''"
  let ?st = "\<lparr>year = 2017, month = 1, day = 4, hour = 0, minute = 0\<rparr>"
  let ?en = "\<lparr>year = 2017, month = 2, day = 4, hour = 0, minute = 0\<rparr>"
  let ?recs = "[[''DogName'', ''ValidDate''],
                     [''RILEY'', ''1/4/2017 8:39''],
                     [''REX'', []],
                     [''BELLA'', ''12/31/2016 23:59''],
                     [''LUNA'', ''2/4/2017 0:00''],
                     [''MAX'', ''2/4/2017 8:39'']]"
  let ?bad = "[[''DogName'', ''ValidDate''],
                     [''RILEY'', ''1/4/2017 8:39''],
                     [''REX'', ''2017-01-04'']]"
  have s: "strptime_date ''1/4/2017'' = Inr ?st" by code_simp
  have e: "strptime_date ''2/4/2017'' = Inr ?en" by code_simp
  have v1: "validate_csv_and_columns fs_dates ''dogs.csv'' [?dc, Some ''DogName''] = Inr ()"
    by code_simp
  have f1: "fs_dates ''dogs.csv'' = Some ?recs" by code_simp
  have v2: "validate_csv_and_columns fs_bad_date ''dogs.csv'' [?dc, Some ''DogName''] = Inr ()"
    by code_simp
  have f2: "fs_bad_date ''dogs.csv'' = Some ?bad" by code_simp
  have split: "dict_rows ?bad = [make_row [''DogName'', ''ValidDate''] [''RILEY'', ''1/4/2017 8:39'']]
       @ make_row [''DogName'', ''ValidDate''] [''REX'', ''2017-01-04''] # []"
    by (simp add: dict_rows_def)
  have p: "\<not> isl (strptime_datetime ''1/4/2017 8:39'')" by code_simp
  have r: "row_item (make_row [''DogName'', ''ValidDate''] [''RILEY'', ''1/4/2017 8:39'']) ?dc
             = Inr (Some ''1/4/2017 8:39'')" by code_simp
  have wd: "\<forall>r \<in> set [make_row [''DogName'', ''ValidDate''] [''RILEY'', ''1/4/2017 8:39'']].
              well_dated r ?dc"
    using p r by (auto simp: well_dated_def)
  have bad: "malformed_date (make_row [''DogName'', ''ValidDate''] [''REX'', ''2017-01-04'']) ?dc
               ''2017-01-04''"
    unfolding malformed_date_def by code_simp
  from values_in_date_range_empty_skipped_malformed_fatal [OF v1 f1 s e]
  have A: "values_in_date_range fs_dates ''dogs.csv'' ?dc ''1/4/2017'' ''2/4/2017'' [Some ''DogName'']
     = date_scan ?dc ?st ?en [Some ''DogName'']
         (filter (\<lambda>row. \<not> empty_date row ?dc) (dict_rows ?recs)) []"
    by (rule conjunct1)
  from values_in_date_range_empty_skipped_malformed_fatal [OF v2 f2 s e] split wd bad
  have B: "values_in_date_range fs_bad_date ''dogs.csv'' ?dc ''1/4/2017'' ''2/4/2017''
       [Some ''DogName'']
     = Inl (invalid_date_error ?dc ''2017-01-04'')"
    by blast
  from A B show ?thesis by (rule conjI)
qed

lemma first_malformed_row:
  assumes rows: "\<forall>r \<in> set rows. \<exists>x. row_item r dc = Inr x"
    and bad: "\<not> (\<forall>r \<in> set rows. well_dated r dc)"
  shows "\<exists>rows1 row rows2 x. rows = rows1 @ row # rows2
           \<and> (\<forall>r \<in> set rows1. well_dated r dc) \<and> malformed_date row dc x"
proof -
  from bad have "\<exists>r \<in> set rows. \<not> well_dated r dc" by blast
  from split_list_first_prop [OF this] obtain rows1 row rows2 where
    split: "rows = rows1 @ row # rows2" and nw: "\<not> well_dated row dc"
    and before: "\<forall>r \<in> set rows1. \<not> \<not> well_dated r dc" by blast
  from split rows obtain cell where cell: "row_item row dc = Inr cell" by auto
  from nw cell obtain x where x: "cell = Some x" "x \<noteq> []"
    by (cases cell) (auto simp: well_dated_def empty_date_def)
  from nw cell x have "isl (strptime_datetime x)"
    by (auto simp: well_dated_def)
  with cell x have "malformed_date row dc x" by (simp add: malformed_date_def)
  with split before show ?thesis by blast
qed

text \<open>
  C10, as the code has it. Let the source and the columns pass validation and both
  window bounds parse, the start later than the end. Then no row qualifies, and the
  call never returns a row. It returns the empty list whenever every date value is
  empty or parses. Otherwise it fails: some row has a date value that is not empty
  and does not parse, the first such row is preceded only by rows whose date value is
  empty or parses, and the call returns the error that names the date column and the
  date value of that row.
\<close>

theorem values_in_date_range_inverted_window:
  assumes v: "validate_csv_and_columns fs csv_file (dc # tcs) = Inr ()"
    and f: "fs csv_file = Some recs"
    and s: "strptime_date start_date = Inr st" and e: "strptime_date end_date = Inr en"
    and inv: "\<not> datetime_le st en"
  shows "(values_in_date_range fs csv_file dc start_date end_date tcs = Inr []
          \<or> (\<exists>x. values_in_date_range fs csv_file dc start_date end_date tcs
                   = Inl (invalid_date_error dc x)))
       \<and> ((\<forall>row \<in> set (dict_rows recs). well_dated row dc)
            \<longrightarrow> values_in_date_range fs csv_file dc start_date end_date tcs = Inr [])
       \<and> (\<not> (\<forall>row \<in> set (dict_rows recs). well_dated row dc)
            \<longrightarrow> (\<exists>rows1 row rows2 x.
                   dict_rows recs = rows1 @ row # rows2
                   \<and> (\<forall>r \<in> set rows1. well_dated r dc)
                   \<and> malformed_date row dc x
                   \<and> values_in_date_range fs csv_file dc start_date end_date tcs
                       = Inl (invalid_date_error dc x)))"
proof -
  have scan: "values_in_date_range fs csv_file dc start_date end_date tcs
           = date_scan dc st en tcs (dict_rows recs) []"
    by (rule values_in_date_range_scan [OF v f s e])
  have rows: "\<forall>row \<in> set (dict_rows recs). \<forall>col \<in> set (dc # tcs). \<exists>v. row_item row col = Inr v"
    by (rule validated_rows [OF v f])
  have A: "values_in_date_range fs csv_file dc start_date end_date tcs = Inr []
          \<or> (\<exists>x. values_in_date_range fs csv_file dc start_date end_date tcs
                   = Inl (invalid_date_error dc x))"
    using date_scan_inverted [OF inv rows, of "[]"] by (simp only: scan)
  have B: "(\<forall>row \<in> set (dict_rows recs). well_dated row dc)
            \<longrightarrow> values_in_date_range fs csv_file dc start_date end_date tcs = Inr []"
    using date_scan_inverted_ok [OF inv rows, of "[]"] by (simp only: scan) blast
  have C: "\<not> (\<forall>row \<in> set (dict_rows recs). well_dated row dc)
            \<longrightarrow> (\<exists>rows1 row rows2 x.
                   dict_rows recs = rows1 @ row # rows2
                   \<and> (\<forall>r \<in> set rows1. well_dated r dc)
                   \<and> malformed_date row dc x
                   \<and> values_in_date_range fs csv_file dc start_date end_date tcs
                       = Inl (invalid_date_error dc x))"
  proof
    assume bad: "\<not> (\<forall>row \<in> set (dict_rows recs). well_dated row dc)"
    from rows have dcs: "\<forall>r \<in> set (dict_rows recs). \<exists>x. row_item r dc = Inr x" by simp
    from first_malformed_row [OF dcs bad] obtain rows1 row rows2 x where
      split: "dict_rows recs = rows1 @ row # rows2"
      and wd: "\<forall>r \<in> set rows1. well_dated r dc" and m: "malformed_date row dc x" by blast
    from rows split have "\<forall>r \<in> set rows1. \<forall>col \<in> set tcs. \<exists>x. row_item r col = Inr x"
      by simp
    from date_scan_first_malformed [OF wd this m, of st en rows2 "[]"]
    have "values_in_date_range fs csv_file dc start_date end_date tcs
            = Inl (invalid_date_error dc x)"
      by (simp only: scan split)
    with split wd m show "\<exists>rows1 row rows2 x.
                   dict_rows recs = rows1 @ row # rows2
                   \<and> (\<forall>r \<in> set rows1. well_dated r dc)
                   \<and> malformed_date row dc x
                   \<and> values_in_date_range fs csv_file dc start_date end_date tcs
                       = Inl (invalid_date_error dc x)"
      by blast
  qed
  from A B C show ?thesis by (intro conjI)
qed

theorem values_in_date_range_inverted_window_witness:
  "values_in_date_range fs_dates ''dogs.csv'' (Some ''ValidDate'') ''2/4/2017'' ''1/4/2017''
       [Some ''DogName''] = Inr []
   \<and> (\<exists>x. values_in_date_range fs_bad_date ''dogs.csv'' (Some ''ValidDate'') ''2/4/2017''
             ''1/4/2017'' [Some ''DogName'']
           = Inl (invalid_date_error (Some ''ValidDate'') x))"
proof -
  let ?dc = "Some ''ValidDate''"
  let ?en = "\<lparr>year = 2017, month = 1, day = 4, hour = 0, minute = 0\<rparr>"
  let ?st = "\<lparr>year = 2017, month = 2, day = 4, hour = 0, minute = 0\<rparr>"
  let ?recs = "[[''DogName'', ''ValidDate''],
                     [''RILEY'', ''1/4/2017 8:39''],
                     [''REX'', []],
                     [''BELLA'', ''12/31/2016 23:59''],
                     [''LUNA'', ''2/4/2017 0:00''],
                     [''MAX'', ''2/4/2017 8:39'']]"
  let ?bad = "[[''DogName'', ''ValidDate''],
                     [''RILEY'', ''1/4/2017 8:39''],
                     [''REX'', ''2017-01-04'']]"
  let ?rex = "make_row [''DogName'', ''ValidDate''] [''REX'', ''2017-01-04'']"
  have e: "strptime_date ''1/4/2017'' = Inr ?en" by code_simp
  have s: "strptime_date ''2/4/2017'' = Inr ?st" by code_simp
  have v: "validate_csv_and_columns fs_dates ''dogs.csv'' [?dc, Some ''DogName''] = Inr ()"
    by code_simp
  have f: "fs_dates ''dogs.csv'' = Some ?recs" by code_simp
  have inv: "\<not> datetime_le ?st ?en" by code_simp
  have wd: "\<forall>row \<in> set (dict_rows ?recs).
      row_item row ?dc = Inr None \<or> row_item row ?dc = Inr (Some [])
      \<or> (case row_item row ?dc of Inr (Some x) \<Rightarrow> \<not> isl (strptime_datetime x) | _ \<Rightarrow> False)"
    by code_simp
  have all: "\<forall>row \<in> set (dict_rows ?recs). well_dated row ?dc"
  proof
    fix row assume "row \<in> set (dict_rows ?recs)"
    with wd have "row_item row ?dc = Inr None \<or> row_item row ?dc = Inr (Some [])
      \<or> (case row_item row ?dc of Inr (Some x) \<Rightarrow> \<not> isl (strptime_datetime x) | _ \<Rightarrow> False)"
      by blast
    then show "well_dated row ?dc"
      by (auto simp: well_dated_def empty_date_def split: sum.splits option.splits)
  qed
  note good = values_in_date_range_inverted_window [OF v f s e inv]
  from good [THEN conjunct2, THEN conjunct1] all
  have A: "values_in_date_range fs_dates ''dogs.csv'' ?dc ''2/4/2017'' ''1/4/2017''
       [Some ''DogName''] = Inr []"
    by (rule mp)
  have v2: "validate_csv_and_columns fs_bad_date ''dogs.csv'' [?dc, Some ''DogName''] = Inr ()"
    by code_simp
  have f2: "fs_bad_date ''dogs.csv'' = Some ?bad" by code_simp
  have mem: "?rex \<in> set (dict_rows ?bad)" by (simp add: dict_rows_def)
  have item: "row_item ?rex ?dc = Inr (Some ''2017-01-04'')" by code_simp
  have fails: "isl (strptime_datetime ''2017-01-04'')" by code_simp
  from item fails have "\<not> well_dated ?rex ?dc"
    by (simp add: well_dated_def empty_date_def)
  with mem have nall: "\<not> (\<forall>row \<in> set (dict_rows ?bad). well_dated row ?dc)" by blast
  note bad = values_in_date_range_inverted_window [OF v2 f2 s e inv]
  from bad [THEN conjunct2, THEN conjunct2] nall
  have "\<exists>rows1 row rows2 x.
           dict_rows ?bad = rows1 @ row # rows2
           \<and> (\<forall>r \<in> set rows1. well_dated r ?dc)
           \<and> malformed_date row ?dc x
           \<and> values_in_date_range fs_bad_date ''dogs.csv'' ?dc ''2/4/2017'' ''1/4/2017''
                [Some ''DogName'']
               = Inl (invalid_date_error ?dc x)"
    by (rule mp)
  then have B: "\<exists>x. values_in_date_range fs_bad_date ''dogs.csv'' ?dc ''2/4/2017''
             ''1/4/2017'' [Some ''DogName'']
           = Inl (invalid_date_error ?dc x)"
    by (elim exE conjE) (rule exI)
  from A B show ?thesis by (rule conjI)
qed

text \<open>
  C10 as stated fails: with the window inverted, a source that has a date value that
  does not parse makes the call fail.
\<close>

theorem values_in_date_range_inverted_window_counterexample:
  "strptime_date ''2/4/2017'' = Inr \<lparr>year = 2017, month = 2, day = 4, hour = 0, minute = 0\<rparr>
   \<and> strptime_date ''1/4/2017'' = Inr \<lparr>year = 2017, month = 1, day = 4, hour = 0, minute = 0\<rparr>
   \<and> values_in_date_range fs_bad_date ''dogs.csv'' (Some ''ValidDate'') ''2/4/2017'' ''1/4/2017''
        [Some ''DogName'']
      = Inl (ValueError (''Invalid date format in column '' @ quoted ''ValidDate''
                           @ '': 2017-01-04''))"
  by code_simp

text \<open>
  C1 at the end of the window. The row of \<open>MAX\<close> is dated \<open>2/4/2017 8:39\<close>, its date
  is the end date \<open>2/4/2017\<close>, and \<open>values_in_date_range\<close> leaves it out: the end bound
  is parsed to midnight and the timestamp of the row, time of day included, is
  compared with it. The row of \<open>LUNA\<close>, dated midnight that day, is returned.
\<close>

theorem values_in_date_range_end_date_excluded:
  "strptime_datetime ''2/4/2017 8:39''
     = Inr \<lparr>year = 2017, month = 2, day = 4, hour = 8, minute = 39\<rparr>
   \<and> strptime_date ''2/4/2017'' = Inr \<lparr>year = 2017, month = 2, day = 4, hour = 0, minute = 0\<rparr>
   \<and> values_in_date_range fs_dates ''dogs.csv'' (Some ''ValidDate'') ''1/4/2017'' ''2/4/2017''
        [Some ''DogName'']
      = Inr [[(Some ''DogName'', Some ''RILEY''), (Some ''ValidDate'', Some ''1/4/2017 8:39'')],
             [(Some ''DogName'', Some ''LUNA''), (Some ''ValidDate'', Some ''2/4/2017 0:00'')]]"
  by code_simp

theorem values_in_date_range_end_date_excluded_witness:
  "\<exists>rows. values_in_date_range fs_dates ''dogs.csv'' (Some ''ValidDate'') ''1/4/2017''
             ''2/4/2017'' [Some ''DogName''] = Inr rows
          \<and> length rows = 2"
proof -
  from values_in_date_range_end_date_excluded
  have "values_in_date_range fs_dates ''dogs.csv'' (Some ''ValidDate'') ''1/4/2017'' ''2/4/2017''
        [Some ''DogName'']
      = Inr [[(Some ''DogName'', Some ''RILEY''), (Some ''ValidDate'', Some ''1/4/2017 8:39'')],
             [(Some ''DogName'', Some ''LUNA''), (Some ''ValidDate'', Some ''2/4/2017 0:00'')]]"
    by (elim conjE)
  then show ?thesis by simp
qed

section \<open>Evaluations at concrete sources\<close>

text \<open>
  C2 at \<open>normalize=False\<close>, \<open>lowercase=True\<close>. The breed \<open>Bichon Frise\<close> is counted under
  the key \<open>bichonfrise\<close>: \<open>count_by_columns\<close> deletes the space although \<open>normalize\<close> is
  off, and so does \<open>top_n_values\<close>, which calls it. \<open>extract_unique_values\<close> keeps the
  space for the same flags.
\<close>

theorem count_by_columns_lowercase_removes_spaces:
  "count_by_columns fs_breeds ''dogs.csv'' [Some ''Breed''] False True
     = Inr [([Some ''bichonfrise''], 2), ([Some ''dachshund''], 2), ([Some ''schnoodle''], 1)]
   \<and> top_n_values fs_breeds ''dogs.csv'' (Some ''Breed'') 1 False True
     = Inr [(Some ''bichonfrise'', 2)]
   \<and> extract_unique_values fs_breeds ''dogs.csv'' (Some ''Breed'') False True
     = Inr [''bichon frise'', ''dachshund'', ''schnoodle'']"
  by code_simp

theorem count_by_columns_lowercase_removes_spaces_witness:
  "\<exists>counts. count_by_columns fs_breeds ''dogs.csv'' [Some ''Breed''] False True = Inr counts
          \<and> map_of counts [Some ''bichonfrise''] = Some 2"
proof -
  from count_by_columns_lowercase_removes_spaces
  have "count_by_columns fs_breeds ''dogs.csv'' [Some ''Breed''] False True
     = Inr [([Some ''bichonfrise''], 2), ([Some ''dachshund''], 2), ([Some ''schnoodle''], 1)]"
    by (elim conjE)
  then show ?thesis by simp
qed

text \<open>
  C9 at \<open>normalize=False\<close>. For the cell \<open>" CHIHUAHUA"\<close> the manual implementation
  returns the value as it is, and the pandas implementation, which strips every value,
  returns it without the leading space.
\<close>

theorem extract_unique_values_pandas_differs:
  "extract_unique_values fs_strip ''dogs.csv'' (Some ''Breed'') False False
     = Inr ['' CHIHUAHUA'']
   \<and> extract_unique_values_pandas fs_strip ''dogs.csv'' (Some ''Breed'') False False
     = Inr [''CHIHUAHUA'']"
  by code_simp

theorem extract_unique_values_pandas_differs_witness:
  "extract_unique_values fs_strip ''dogs.csv'' (Some ''Breed'') False False
     \<noteq> extract_unique_values_pandas fs_strip ''dogs.csv'' (Some ''Breed'') False False"
proof -
  from extract_unique_values_pandas_differs
  have a: "extract_unique_values fs_strip ''dogs.csv'' (Some ''Breed'') False False
     = Inr ['' CHIHUAHUA'']"
    and b: "extract_unique_values_pandas fs_strip ''dogs.csv'' (Some ''Breed'') False False
     = Inr [''CHIHUAHUA'']"
    by simp_all
  show ?thesis by (simp add: a b)
qed


text \<open>
  C6 as stated fails: the checks of a name being non-empty and of its being in the header
  are made column by column. For the columns \<open>Absent\<close> and the empty name, in this
  order, the failure reported is the absence of the first, not the emptiness of the
  second.
\<close>

theorem validate_absent_before_empty_counterexample:
  "validate_csv_and_columns fs_blank ''dogs.csv'' [Some ''Absent'', Some []]
     = Inl (ValueError (''The specified column '' @ quoted ''Absent''
                          @ '' does not exist in the CSV file.''))"
  by code_simp

section \<open>What \<open>normalize\<close> removes\<close>



















section \<open>The order of the checks of the validator\<close>

lemma validate_header:
  assumes "endswith (str_lower csv_file) ''.csv''" and "fs csv_file = Some (header # body)"
    and "header \<noteq> []"
  shows "validate_csv_and_columns fs csv_file cols = check_columns csv_file header cols"
  using assms by (simp add: validate_csv_and_columns_def fieldnames_def)

text \<open>
  C6, as the code has it. The validator checks, in this order, the file extension,
  that the file can be opened, and that the header is not empty. It then goes through
  the required column names in the order of the list and checks of each name first
  that it is not empty or null and then that it is in the header: the first name that
  fails one of the two checks decides the failure reported. The result depends on the
  header only, not on the data rows, and every operation returns the failure of the
  validator as its own result.
\<close>

theorem validate_order_of_checks:
  "(\<not> endswith (str_lower csv_file) ''.csv'' \<longrightarrow>
      validate_csv_and_columns fs csv_file cols
        = Inl (ValueError (''The file '' @ quoted csv_file @ '' is not a valid CSV file.'')))
   \<and> (endswith (str_lower csv_file) ''.csv'' \<and> fs csv_file = None \<longrightarrow>
      validate_csv_and_columns fs csv_file cols
        = Inl (FileNotFoundError (''The file '' @ quoted csv_file @ '' does not exist.'')))
   \<and> (endswith (str_lower csv_file) ''.csv'' \<and> (fs csv_file = Some [] \<or> fs csv_file = Some ([] # body))
        \<longrightarrow>
      validate_csv_and_columns fs csv_file cols
        = Inl (ValueError (''The CSV file '' @ quoted csv_file @ '' is empty.'')))
   \<and> (endswith (str_lower csv_file) ''.csv'' \<and> fs csv_file = Some (header # body) \<and> header \<noteq> []
        \<longrightarrow>
      validate_csv_and_columns fs csv_file cols
        = (case find (\<lambda>c. blank_name c \<or> absent_name header c) cols of
             None \<Rightarrow> Inr ()
           | Some c \<Rightarrow> Inl (column_error c))
      \<and> validate_csv_and_columns (fs(csv_file \<mapsto> header # body')) csv_file cols
        = validate_csv_and_columns fs csv_file cols)
   \<and> (\<forall>e. validate_csv_and_columns fs csv_file [col] = Inl e \<longrightarrow>
          extract_unique_values fs csv_file col nz lc = Inl e
        \<and> top_n_values fs csv_file col n nz lc = Inl e)
   \<and> (\<forall>e. validate_csv_and_columns fs csv_file cols = Inl e \<longrightarrow>
          count_by_columns fs csv_file cols nz lc = Inl e)
   \<and> (\<forall>e. validate_csv_and_columns fs csv_file (col # cols) = Inl e \<longrightarrow>
          values_in_date_range fs csv_file col start_date end_date cols = Inl e)"
proof (intro conjI impI allI)
  assume "\<not> endswith (str_lower csv_file) ''.csv''"
  then show "validate_csv_and_columns fs csv_file cols
        = Inl (ValueError (''The file '' @ quoted csv_file @ '' is not a valid CSV file.''))"
    by (simp add: validate_csv_and_columns_def)
next
  assume "endswith (str_lower csv_file) ''.csv'' \<and> fs csv_file = None"
  then show "validate_csv_and_columns fs csv_file cols
        = Inl (FileNotFoundError (''The file '' @ quoted csv_file @ '' does not exist.''))"
    by (simp add: validate_csv_and_columns_def)
next
  assume "endswith (str_lower csv_file) ''.csv'' \<and> (fs csv_file = Some [] \<or> fs csv_file = Some ([] # body))"
  then show "validate_csv_and_columns fs csv_file cols
        = Inl (ValueError (''The CSV file '' @ quoted csv_file @ '' is empty.''))"
    by (auto simp: validate_csv_and_columns_def fieldnames_def)
next
  assume a: "endswith (str_lower csv_file) ''.csv'' \<and> fs csv_file = Some (header # body) \<and> header \<noteq> []"
  then have "validate_csv_and_columns fs csv_file cols = check_columns csv_file header cols"
    by (simp add: validate_header)
  then show "validate_csv_and_columns fs csv_file cols
        = (case find (\<lambda>c. blank_name c \<or> absent_name header c) cols of
             None \<Rightarrow> Inr ()
           | Some c \<Rightarrow> Inl (column_error c))"
    by (simp only: check_columns_find)
next
  assume a: "endswith (str_lower csv_file) ''.csv'' \<and> fs csv_file = Some (header # body) \<and> header \<noteq> []"
  then have "validate_csv_and_columns fs csv_file cols = check_columns csv_file header cols"
    by (simp add: validate_header)
  moreover from a have "validate_csv_and_columns (fs(csv_file \<mapsto> header # body')) csv_file cols
      = check_columns csv_file header cols"
    by (simp add: validate_header)
  ultimately show "validate_csv_and_columns (fs(csv_file \<mapsto> header # body')) csv_file cols
        = validate_csv_and_columns fs csv_file cols" by simp
next
  fix e assume "validate_csv_and_columns fs csv_file [col] = Inl e"
  then show "extract_unique_values fs csv_file col nz lc = Inl e"
    by (simp add: extract_unique_values_def)
next
  fix e assume "validate_csv_and_columns fs csv_file [col] = Inl e"
  then show "top_n_values fs csv_file col n nz lc = Inl e"
    by (simp add: top_n_values_def)
next
  fix e assume "validate_csv_and_columns fs csv_file cols = Inl e"
  then show "count_by_columns fs csv_file cols nz lc = Inl e"
    by (simp add: count_by_columns_def)
next
  fix e assume "validate_csv_and_columns fs csv_file (col # cols) = Inl e"
  then show "values_in_date_range fs csv_file col start_date end_date cols = Inl e"
    by (simp add: values_in_date_range_def)
qed

theorem validate_order_of_checks_witness:
  "validate_csv_and_columns fs_blank ''dogs.csv'' [Some [], Some ''Absent'']
     = Inl (ValueError ''The target column name cannot be empty or null.'')
   \<and> extract_unique_values fs_blank ''dogs.csv'' None True False
     = Inl (ValueError ''The target column name cannot be empty or null.'')"
proof -
  have x: "endswith (str_lower ''dogs.csv'') ''.csv''
     \<and> fs_blank ''dogs.csv'' = Some ([''Breed'', ''DogName''] # [['' '', ''REX'']])
     \<and> [''Breed'', ''DogName''] \<noteq> []"
    by code_simp
  have fnd: "(case find (\<lambda>c. blank_name c \<or> absent_name [''Breed'', ''DogName''] c)
                [Some [], Some ''Absent''] of
             None \<Rightarrow> Inr ()
           | Some c \<Rightarrow> Inl (column_error c))
      = Inl (ValueError ''The target column name cannot be empty or null.'')"
    by code_simp
  have n: "validate_csv_and_columns fs_blank ''dogs.csv'' [None]
      = Inl (ValueError ''The target column name cannot be empty or null.'')"
    by code_simp
  note inst = validate_order_of_checks [of "''dogs.csv''" fs_blank "[Some [], Some ''Absent'']"
      "[['' '', ''REX'']]" "[''Breed'', ''DogName'']" "[]" None True False 0 "[]" "[]"]
  note d4 = inst [THEN conjunct2, THEN conjunct2, THEN conjunct2, THEN conjunct1,
      THEN mp, OF x, THEN conjunct1]
  from d4 fnd have A: "validate_csv_and_columns fs_blank ''dogs.csv'' [Some [], Some ''Absent'']
     = Inl (ValueError ''The target column name cannot be empty or null.'')"
    by (rule trans)
  note d5 = inst [THEN conjunct2, THEN conjunct2, THEN conjunct2, THEN conjunct2,
      THEN conjunct1, THEN spec, THEN mp, OF n, THEN conjunct1]
  have B: "extract_unique_values fs_blank ''dogs.csv'' None True False
     = Inl (ValueError ''The target column name cannot be empty or null.'')"
    by (rule d5)
  from A B show ?thesis by (rule conjI)
qed

end
